theory Spec2Isabelle
  imports Complex_Main "HOL-Library.Sublist" "HOL-Library.Log_Nat"
begin

section \<open>JavaScript strings\<close>

text \<open>
  A JavaScript string is a sequence of UTF-16 code units; a code unit is modelled by its
  number. ASCII text is written as an Isabelle string and converted by \<open>ascii\<close>.
\<close>

type_synonym js_string = "nat list"

definition ascii :: "string \<Rightarrow> js_string" where
  "ascii s = map of_char s"

text \<open>The bullet U+2022 that separates the format and the time of a history line.\<close>

definition bullet :: nat where
  "bullet = 8226"

text \<open>
  \<open>String.prototype.trim\<close> removes WhiteSpace and LineTerminator code points from both
  ends: TAB, LF, VT, FF, CR, SP, NBSP, U+1680, U+2000..U+200A, LS, PS, U+202F, U+205F,
  U+3000 and U+FEFF.
\<close>

definition js_whitespace :: "nat \<Rightarrow> bool" where
  "js_whitespace c \<longleftrightarrow>
     c = 9 \<or> c = 10 \<or> c = 11 \<or> c = 12 \<or> c = 13 \<or> c = 32 \<or> c = 160 \<or> c = 5760 \<or>
     (8192 \<le> c \<and> c \<le> 8202) \<or> c = 8232 \<or> c = 8233 \<or> c = 8239 \<or> c = 8287 \<or>
     c = 12288 \<or> c = 65279"

definition js_trim :: "js_string \<Rightarrow> js_string" where
  "js_trim s = rev (dropWhile js_whitespace (rev (dropWhile js_whitespace s)))"

text \<open>
  \<open>s.split(sep)\<close> for a separator of one code unit: the pieces between the occurrences
  of the separator, in order; a string without the separator is its own single piece.
\<close>

fun js_split :: "nat \<Rightarrow> js_string \<Rightarrow> js_string list" where
  "js_split sep [] = [[]]"
| "js_split sep (c # cs) =
     (if c = sep then [] # js_split sep cs
      else (case js_split sep cs of
              [] \<Rightarrow> [[c]]
            | p # ps \<Rightarrow> (c # p) # ps))"

text \<open>
  \<open>s.replace(pat, rep)\<close> with a string pattern replaces the first occurrence of the
  pattern only.
\<close>

fun js_replace :: "js_string \<Rightarrow> js_string \<Rightarrow> js_string \<Rightarrow> js_string" where
  "js_replace pat rep [] = (if pat = [] then rep else [])"
| "js_replace pat rep (c # cs) =
     (if prefix pat (c # cs) then rep @ drop (length pat) (c # cs)
      else c # js_replace pat rep cs)"

section \<open>Text in an HTML template\<close>

text \<open>
  A string assigned to \<open>innerHTML\<close> is parsed as HTML. The markup of the templates is
  fixed by the source; what varies is the text interpolated into it. The model follows the
  HTML parser on interpolated text as far as this:
  \<^item> the input stream is preprocessed: CR LF and a lone CR become LF;
  \<^item> \<open><\<close> opens a tag when an ASCII letter, \<open>/\<close>, \<open>!\<close> or \<open>?\<close> follows, and is text
    otherwise;
  \<^item> \<open>&\<close> opens a character reference when an ASCII letter or digit or \<open>#\<close> follows,
    and is text otherwise;
  \<^item> NUL is dropped from the text of an element;
  \<^item> of all tags, the start tag \<open><span>\<close> alone is followed: it opens a span inside the
    current element, and the text after it belongs to that span.
  Any other tag and any character reference leaves what the model determines: the result
  is \<open>None\<close>, and the operation that built the element is \<open>Beyond\<close>. The character that
  follows the interpolated string in the template is an argument, \<open>after\<close>.
\<close>

fun normalize_newlines :: "js_string \<Rightarrow> js_string" where
  "normalize_newlines [] = []"
| "normalize_newlines [c] = [if c = 13 then 10 else c]"
| "normalize_newlines (c # d # cs) =
     (if c = 13 then 10 # (if d = 10 then normalize_newlines cs else normalize_newlines (d # cs))
      else c # normalize_newlines (d # cs))"

definition opens_tag :: "nat \<Rightarrow> bool" where
  "opens_tag d \<longleftrightarrow>
     (65 \<le> d \<and> d \<le> 90) \<or> (97 \<le> d \<and> d \<le> 122) \<or> d = 47 \<or> d = 33 \<or> d = 63"

definition opens_reference :: "nat \<Rightarrow> bool" where
  "opens_reference d \<longleftrightarrow>
     (48 \<le> d \<and> d \<le> 57) \<or> (65 \<le> d \<and> d \<le> 90) \<or> (97 \<le> d \<and> d \<le> 122) \<or> d = 35"

fun next_char :: "nat \<Rightarrow> js_string \<Rightarrow> nat" where
  "next_char after [] = after"
| "next_char after (d # ds) = d"

text \<open>
  The runs of text of an interpolated string, cut at each start tag \<open><span>\<close>: one run
  when the string holds no tag.
\<close>

fun html_pieces :: "nat \<Rightarrow> js_string \<Rightarrow> js_string list option" where
  "html_pieces after [] = Some [[]]"
| "html_pieces after (c # cs) =
     (if c = 60 \<and> take 5 cs = ascii ''span>'' then
        (case html_pieces after (drop 5 cs) of
           None \<Rightarrow> None
         | Some ps \<Rightarrow> Some ([] # ps))
      else if c = 60 \<and> opens_tag (next_char after cs) then None
      else if c = 38 \<and> opens_reference (next_char after cs) then None
      else
        (case html_pieces after cs of
           None \<Rightarrow> None
         | Some [] \<Rightarrow> None
         | Some (p # ps) \<Rightarrow> Some ((if c = 0 then p else c # p) # ps)))"

text \<open>The text of an interpolated string that may hold no tag at all.\<close>

definition html_text :: "nat \<Rightarrow> js_string \<Rightarrow> js_string option" where
  "html_text after s =
     (case html_pieces after (normalize_newlines s) of
        Some [p] \<Rightarrow> Some p
      | _ \<Rightarrow> None)"

text \<open>
  A string that the parser takes literally: its text is the string itself. No NUL, no
  CR, no \<open><\<close> that opens a tag and no \<open>&\<close> that opens a character reference.
\<close>

fun literal :: "nat \<Rightarrow> js_string \<Rightarrow> bool" where
  "literal after [] = True"
| "literal after (c # cs) =
     (c \<noteq> 0 \<and> c \<noteq> 13 \<and>
      \<not> (c = 60 \<and> opens_tag (next_char after cs)) \<and>
      \<not> (c = 38 \<and> opens_reference (next_char after cs)) \<and>
      literal after cs)"

section \<open>Outcomes of a call\<close>

text \<open>
  A call either completes, or throws after having changed the state so far (the changes
  stay), or leaves what the model determines.
\<close>

datatype 'a outcome = Done 'a | Threw 'a | Beyond

section \<open>History store\<close>

text \<open>
  A \<open>.history-item\<close> element is held as the text contents of its \<open>span\<close> elements, in
  document order, which is all that \<open>saveDownloadHistory\<close> reads of it: the list that
  \<open>item.querySelectorAll('span')\<close> returns, each span by its \<open>textContent\<close>.
\<close>

type_synonym history_item = "js_string list"

record history_record =
  rec_title :: js_string
  rec_format :: js_string
  rec_time :: js_string

text \<open>
  The texts of the spans that open inside the first span of the template. With the runs
  \<open>p0, p1, ..., pk\<close> of the title, the first span holds the \<open>strong\<close> element with \<open>p0\<close> and
  the span opened by the first tag; that span holds \<open>p1\<close> and the span opened by the second
  tag, and so on. The end tag \<open></strong>\<close> closes all of them (no element between is a
  block), and \<open></span>\<close> closes the first span. The text content of a span is the text of
  all its descendants.
\<close>

fun nested_texts :: "js_string list \<Rightarrow> js_string list" where
  "nested_texts [] = []"
| "nested_texts (p # ps) = concat (p # ps) # nested_texts ps"

text \<open>
  The template of \<open>addToDownloadHistory\<close> and \<open>loadDownloadHistory\<close>:
  \<open><span><strong>${title}</strong></span> <span>${format} \<bullet> ${time}</span>\<close>,
  with white space before, between and after the two outer spans. The title is followed by
  \<open><\<close>, the format by a space, the time by \<open><\<close>. A tag in the format or the time is
  not followed.
\<close>

definition history_template :: "js_string \<Rightarrow> js_string \<Rightarrow> js_string \<Rightarrow> history_item option" where
  "history_template title format time =
     (case (html_pieces 60 (normalize_newlines title), html_text 32 format, html_text 60 time) of
        (Some ps, Some f, Some t) \<Rightarrow> Some (nested_texts ps @ [f @ [32, bullet, 32] @ t])
      | _ \<Rightarrow> None)"

text \<open>
  The object built for one item by the \<open>map\<close> callback of \<open>saveDownloadHistory\<close>.
  Reading \<open>textContent\<close> of a span that is not there throws a TypeError; so does
  \<open>.trim()\<close> on \<open>split('\<bullet>')[1]\<close> when the second span holds no bullet. Either way
  the result is \<open>None\<close>.
\<close>

definition item_record :: "history_item \<Rightarrow> history_record option" where
  "item_record spans =
     (if length spans < 2 then None
      else
        let title = js_replace (ascii ''</strong>'') []
                      (js_replace (ascii ''<strong>'') [] (spans ! 0));
            parts = js_split bullet (spans ! 1);
            format = js_trim (parts ! 0)
        in if length parts < 2 then None
           else Some \<lparr>rec_title = title, rec_format = format, rec_time = js_trim (parts ! 1)\<rparr>)"

fun map_records :: "history_item list \<Rightarrow> history_record list option" where
  "map_records [] = Some []"
| "map_records (i # is) =
     (case item_record i of
        None \<Rightarrow> None
      | Some r \<Rightarrow> (case map_records is of None \<Rightarrow> None | Some rs \<Rightarrow> Some (r # rs)))"

text \<open>
  A child node of \<open>#historyList\<close>: a history line, another element (one without the class
  \<open>history-item\<close> that holds no history line), or a node that is not an element (text, a
  comment). The markup of the page is not among the sources, so the nodes that the list
  holds when the script starts are part of the state.
\<close>

datatype list_node = Line history_item | Other_element | Text_node

fun history_lines :: "list_node list \<Rightarrow> history_item list" where
  "history_lines [] = []"
| "history_lines (Line i # ns) = i # history_lines ns"
| "history_lines (_ # ns) = history_lines ns"

text \<open>\<open>children.length\<close>: the child nodes that are elements.\<close>

fun children_length :: "list_node list \<Rightarrow> nat" where
  "children_length [] = 0"
| "children_length (Text_node # ns) = children_length ns"
| "children_length (_ # ns) = Suc (children_length ns)"

text \<open>
  The part of the page state that the history store owns: the child nodes of
  \<open>#historyList\<close>, first child first, and the value stored under the key
  \<open>downloadHistory\<close>, held as the array that \<open>JSON.parse\<close> gives back for what
  \<open>JSON.stringify\<close> wrote (\<open>None\<close>: no value stored). The page is taken to hold no
  \<open>.history-item\<close> outside \<open>#historyList\<close>, so that the lines of the list are what
  \<open>document.querySelectorAll('.history-item')\<close> returns.
\<close>

record history_store =
  historyList :: "list_node list"
  downloadHistory :: "history_record list option"

definition saveDownloadHistory :: "'a history_store_scheme \<Rightarrow> 'a history_store_scheme outcome" where
  "saveDownloadHistory s =
     (case map_records (history_lines (historyList s)) of
        None \<Rightarrow> Threw s
      | Some history \<Rightarrow> Done (s\<lparr>downloadHistory := Some history\<rparr>))"

text \<open>
  \<open>addToDownloadHistory\<close> inserts the new line before the first child, removes the last
  child (whatever node it is) when more than ten children are elements, and saves.
\<close>

definition addToDownloadHistory ::
  "js_string \<Rightarrow> js_string \<Rightarrow> js_string \<Rightarrow> 'a history_store_scheme \<Rightarrow> 'a history_store_scheme outcome" where
  "addToDownloadHistory title format timeString s =
     (case history_template title format timeString of
        None \<Rightarrow> Beyond
      | Some historyItem \<Rightarrow>
          (let nodes = Line historyItem # historyList s;
               nodes' = (if children_length nodes > 10 then butlast nodes else nodes)
           in saveDownloadHistory (s\<lparr>historyList := nodes'\<rparr>)))"



section \<open>Numbers\<close>

text \<open>
  A JavaScript number is an IEEE 754 binary64 value, and every arithmetic operation
  returns the double nearest to the exact result, a tie going to the even significand.
  \<open>binary64 q\<close> is that double for a non-negative rational \<open>q\<close>: with \<open>f\<close> the
  exponent of \<open>q\<close> (\<open>2 ^ f \<le> q < 2 ^ (f + 1)\<close>, computed by \<open>floor_log2\<close> from the bit
  length of the integer part of \<open>q\<close> or of \<open>1 / q\<close>), the significand is \<open>q / 2 ^ (f - 52)\<close>
  rounded to an integer of 53 bits. The definition covers the normal range (no overflow
  and no subnormal result), which contains every quotient and product of counts below
  \<open>2 ^ 53\<close> that the batch progress computes.
\<close>

definition pow2 :: "int \<Rightarrow> rat" where
  "pow2 e = (if 0 \<le> e then 2 ^ nat e else 1 / 2 ^ nat (- e))"

definition floor_log2 :: "rat \<Rightarrow> int" where
  "floor_log2 q = (if 1 \<le> q then bitlen \<lfloor>q\<rfloor> - 1 else - bitlen (\<lceil>1 / q\<rceil> - 1))"

definition round_half_even :: "rat \<Rightarrow> int" where
  "round_half_even x =
     (let f = \<lfloor>x\<rfloor>; r = x - of_int f
      in if r < 1 / 2 then f
         else if 1 / 2 < r then f + 1
         else if even f then f else f + 1)"

definition binary64 :: "rat \<Rightarrow> rat" where
  "binary64 q =
     (if q \<le> 0 then 0
      else let e = floor_log2 q - 52
           in of_int (round_half_even (q / pow2 e)) * pow2 e)"

text \<open>
  \<open>Math.round\<close> returns the nearest integer, a tie going towards plus infinity.
\<close>

definition Math_round :: "rat \<Rightarrow> int" where
  "Math_round x = \<lfloor>x + 1 / 2\<rfloor>"

text \<open>Decimal digits of a natural number, as \<open>toString\<close> and a template print it.\<close>

fun decimal :: "nat \<Rightarrow> js_string" where
  "decimal n = (if n < 10 then [48 + n] else decimal (n div 10) @ [48 + n mod 10])"

declare decimal.simps [simp del]

section \<open>Data model\<close>

record format_desc =
  format_id :: js_string
  name :: js_string
  media_type :: js_string
  ext :: js_string

record video_info =
  title :: js_string
  duration :: nat
  thumbnail :: js_string
  formats :: "format_desc list"

text \<open>
  The body of a status reply. A field that the body lacks is \<open>None\<close>
  (\<open>undefined\<close> in the source).
\<close>

record job_status =
  status :: js_string
  percent :: "js_string option"
  speed :: "js_string option"
  downloaded :: "js_string option"
  total_size :: "js_string option"
  completed :: "nat option"
  error :: "js_string option"

text \<open>
  What a backend call gives back. \<open>Rejected m\<close>: \<open>fetch\<close>, \<open>response.json()\<close> or
  \<open>response.blob()\<close> rejected with an error whose message is \<open>m\<close>. \<open>Not_ok e\<close>: a
  response outside 2xx whose body has the \<open>error\<close> field \<open>e\<close>. \<open>Ok_body b\<close>: a 2xx
  response with the well-formed body \<open>b\<close>.
\<close>

datatype 'a http_reply = Rejected js_string | Not_ok "js_string option" | Ok_body 'a

text \<open>
  What one status poll gives back: \<open>Failed\<close> when \<open>fetch\<close> or \<open>response.json()\<close>
  rejects (a network error, a body that is not JSON), \<open>Replied b\<close> otherwise. The status
  handlers do not look at \<open>response.ok\<close>.
\<close>

datatype 'a reply = Failed | Replied 'a

datatype display = Display_unset | Display_none | Display_block | Display_flex

text \<open>
  The width of the progress bar. \<open>Width_percent_of p\<close> stands for the string
  \<open>`${parseFloat(p) || 0}%`\<close>.
\<close>

datatype css_width = Width_unset | Width_percent_of "js_string option" | Width_text js_string

text \<open>
  The text of \<open>#urlError\<close>. \<open>Engine_error_text\<close> stands for the cross mark followed by
  the message of a TypeError raised by the engine, whose wording the source does not fix.
\<close>

datatype error_text = Page_text js_string | Engine_error_text

datatype click_handler = Call_downloadFile

text \<open>
  The percentage that \<open>Math.round((completed / total) * 100)\<close> yields;
  \<open>Percent_beyond\<close> when an operand is not below \<open>2 ^ 53\<close>.
\<close>

datatype percentage = Percent int | Percent_NaN | Percent_Infinity | Percent_beyond

text \<open>
  The content of \<open>#batchProgress\<close>, one constructor per template of the source with the
  values it interpolates.
\<close>

datatype batch_content =
    Batch_unset
  | Batch_starting
  | Batch_bar nat nat percentage
  | Batch_completed nat
  | Batch_error_message error_text

record grid_item =
  item_format :: format_desc
  selected :: bool

text \<open>
  The state of the page: the fields of the \<open>VideoDownloader\<close> object and the properties
  of the elements that its methods write, on top of the history store.
\<close>

record app_state = history_store +
  currentDownloadId :: "js_string option"
  currentVideoInfo :: "video_info option"
  selectedFormat :: "format_desc option"
  urlInput_value :: js_string
  urlError_text :: error_text
  urlError_display :: display
  formatLoading_display :: display
  formatSection_display :: display
  videoInfo_display :: display
  videoThumbnail_src :: js_string
  videoTitle_text :: js_string
  videoDuration_text :: js_string
  formatGrid :: "grid_item list"
  progressSection_display :: display
  downloadBtn_display :: display
  downloadBtn_disabled :: bool
  downloadBtn_innerHTML :: js_string
  downloadBtn_onclick :: "click_handler option"
  progressFill_width :: css_width
  progressText_text :: js_string
  downloadSpeed_text :: js_string
  fileSize_text :: js_string
  batchUrls_value :: js_string
  batchProgress_display :: display
  batchProgress_content :: batch_content

text \<open>What the page does to the world outside its own state, in the order it does it.\<close>

datatype request =
    Get_info js_string
  | Start_download js_string js_string js_string
  | Download_status "js_string option"
  | Download_file "js_string option"
  | Batch_download "js_string list" js_string

datatype timer = Check_progress | Hide_error

datatype event =
    Fetch request
  | Status_received job_status
  | Console_error
  | Set_timeout timer nat
  | Save_as js_string

section \<open>Small pieces of JavaScript\<close>

text \<open>A value is falsy when it is missing or the empty string.\<close>

fun truthy :: "js_string option \<Rightarrow> bool" where
  "truthy None = False"
| "truthy (Some []) = False"
| "truthy (Some (c # cs)) = True"

text \<open>\<open>v || d\<close> for a string field \<open>v\<close> that may be missing.\<close>

definition or_else :: "js_string option \<Rightarrow> js_string \<Rightarrow> js_string" where
  "or_else v d = (if truthy v then the v else d)"

text \<open>A field interpolated into a template literal, and a field assigned to \<open>textContent\<close>.\<close>

definition template_value :: "js_string option \<Rightarrow> js_string" where
  "template_value v = (case v of None \<Rightarrow> ascii ''undefined'' | Some x \<Rightarrow> x)"

definition text_content :: "js_string option \<Rightarrow> js_string" where
  "text_content v = (case v of None \<Rightarrow> [] | Some x \<Rightarrow> x)"

definition padStart2 :: "js_string \<Rightarrow> js_string" where
  "padStart2 x = replicate (2 - length x) 48 @ x"

text \<open>The text that \<open>showError\<close> builds from a message: a cross mark, a space, the message.\<close>

definition cross :: "js_string \<Rightarrow> error_text" where
  "cross message = Page_text ([10060, 32] @ message)"

definition label_starting :: js_string where
  "label_starting = 9203 # ascii '' Starting Download...''"

definition label_download_now :: js_string where
  "label_download_now = [11015, 65039] @ ascii '' Download Now''"

definition label_save_file :: js_string where
  "label_save_file = [55357, 56510] @ ascii '' Save File''"

section \<open>Operations of the page\<close>

text \<open>
  Every operation takes what the backend answers as an argument and returns the events it
  causes, in order, with the state it leaves. All errors go to \<open>#urlError\<close>, the only
  element \<open>showError\<close> is called with; the timer that hides the message after 5000 ms is
  recorded as an event.
\<close>

definition showError :: "error_text \<Rightarrow> app_state \<Rightarrow> event list \<times> app_state" where
  "showError message s =
     ([Set_timeout Hide_error 5000],
      s\<lparr>urlError_text := message, urlError_display := Display_block\<rparr>)"

text \<open>
  \<open>Math.floor(d / 60)\<close> and \<open>d % 60\<close> on a duration \<open>d\<close> in whole seconds.
\<close>

definition displayVideoInfo :: "video_info \<Rightarrow> app_state \<Rightarrow> app_state" where
  "displayVideoInfo info s =
     (let mins = duration info div 60;
          secs = duration info mod 60
      in s\<lparr>videoThumbnail_src := thumbnail info,
           videoTitle_text := title info,
           videoDuration_text :=
             ascii ''Duration: '' @ decimal mins @ [58] @ padStart2 (decimal secs),
           videoInfo_display := Display_flex\<rparr>)"

text \<open>
  \<open>displayFormats\<close> empties the grid and adds one item per format; an item carries the
  format that its click handler captured and whether it has the class \<open>selected\<close>.
\<close>

definition displayFormats :: "format_desc list \<Rightarrow> app_state \<Rightarrow> app_state" where
  "displayFormats fs s =
     s\<lparr>formatGrid := map (\<lambda>f. \<lparr>item_format = f, selected = False\<rparr>) fs,
       formatSection_display := Display_block\<rparr>"

text \<open>The click handler of the \<open>k\<close>-th item of the grid.\<close>

definition click_format_item :: "nat \<Rightarrow> app_state \<Rightarrow> app_state" where
  "click_format_item k s =
     (if k < length (formatGrid s)
      then let f = item_format (formatGrid s ! k)
           in s\<lparr>formatGrid :=
                  (map (\<lambda>i. i\<lparr>selected := False\<rparr>) (formatGrid s))
                    [k := \<lparr>item_format = f, selected = True\<rparr>],
                selectedFormat := Some f,
                progressSection_display := Display_block,
                downloadBtn_display := Display_block\<rparr>
      else s)"

definition fetchVideoInfo :: "video_info http_reply \<Rightarrow> app_state \<Rightarrow> event list \<times> app_state" where
  "fetchVideoInfo r s =
     (let url = js_trim (urlInput_value s)
      in if url = [] then ([], s)
         else
           let s1 = s\<lparr>formatLoading_display := Display_block,
                      formatSection_display := Display_none\<rparr>;
               (evs, s2) =
                 (case r of
                    Ok_body data \<Rightarrow>
                      ([], displayFormats (formats data)
                             (displayVideoInfo data (s1\<lparr>currentVideoInfo := Some data\<rparr>)))
                  | Not_ok e \<Rightarrow>
                      showError (cross (or_else e (ascii ''Failed to fetch video info''))) s1
                  | Rejected m \<Rightarrow> showError (cross m) s1)
           in (Fetch (Get_info url) # evs, s2\<lparr>formatLoading_display := Display_none\<rparr>))"

definition resetDownloadUI :: "app_state \<Rightarrow> app_state" where
  "resetDownloadUI s =
     s\<lparr>progressSection_display := Display_none,
       downloadBtn_display := Display_none,
       progressFill_width := Width_text (ascii ''0%''),
       currentDownloadId := None\<rparr>"

text \<open>
  \<open>downloadFile\<close>. Reading \<open>title\<close> or \<open>ext\<close> of a missing object throws a TypeError
  inside the \<open>try\<close>, which the \<open>catch\<close> shows like any other failure.
\<close>

definition downloadFile :: "unit http_reply \<Rightarrow> app_state \<Rightarrow> event list \<times> app_state" where
  "downloadFile r s =
     (if \<not> truthy (currentDownloadId s) then ([], s)
      else
        let request = Fetch (Download_file (currentDownloadId s))
        in case r of
             Rejected m \<Rightarrow> (let (evs, s1) = showError (cross m) s in (request # evs, s1))
           | Not_ok e \<Rightarrow>
               (let (evs, s1) = showError (cross (ascii ''Failed to download file'')) s
                in (request # evs, s1))
           | Ok_body blob \<Rightarrow>
               (case (currentVideoInfo s, selectedFormat s) of
                  (Some info, Some f) \<Rightarrow>
                    ([request, Save_as (title info @ [46] @ ext f)], resetDownloadUI s)
                | _ \<Rightarrow>
                    (let (evs, s1) = showError Engine_error_text s in (request # evs, s1))))"

subsection \<open>Polling the status of a download\<close>

datatype next_step = Rescheduled | Finished_polling | Unmodelled

text \<open>
  One run of the closure \<open>checkProgress\<close> of \<open>monitorDownloadProgress\<close>, given what the
  poll gives back: the status body together with the string that \<open>toLocaleTimeString\<close>
  returns while that body is handled. \<open>Status_received\<close> marks the point where the
  \<open>if\<close> chain starts on a body; the chain is the per-iteration callback of the loop.
  An exception thrown in the chain lands in the same \<open>catch\<close> as a failed fetch.
\<close>

definition download_check_once ::
  "(job_status \<times> js_string) reply \<Rightarrow> app_state \<Rightarrow> event list \<times> app_state \<times> next_step" where
  "download_check_once r s =
     (let request = Fetch (Download_status (currentDownloadId s));
          caught = [Console_error, Set_timeout Check_progress 2000]
      in case r of
           Failed \<Rightarrow> (request # caught, s, Rescheduled)
         | Replied (st, now) \<Rightarrow>
             if status st = ascii ''downloading'' then
               ([request, Status_received st, Set_timeout Check_progress 1000],
                s\<lparr>progressFill_width := Width_percent_of (percent st),
                  progressText_text := text_content (percent st),
                  downloadSpeed_text := text_content (speed st),
                  fileSize_text :=
                    template_value (downloaded st) @ ascii '' / '' @ template_value (total_size st)\<rparr>,
                Rescheduled)
             else if status st = ascii ''finished'' then
               (let s1 = s\<lparr>progressFill_width := Width_text (ascii ''100%''),
                            progressText_text := ascii ''100%'',
                            downloadSpeed_text := ascii ''Completed'',
                            downloadBtn_disabled := False,
                            downloadBtn_innerHTML := label_save_file,
                            downloadBtn_onclick := Some Call_downloadFile\<rparr>
                in case (currentVideoInfo s1, selectedFormat s1) of
                     (Some info, Some f) \<Rightarrow>
                       (case addToDownloadHistory (title info) (name f) now s1 of
                          Done s2 \<Rightarrow> ([request, Status_received st], s2, Finished_polling)
                        | Threw s2 \<Rightarrow> ([request, Status_received st] @ caught, s2, Rescheduled)
                        | Beyond \<Rightarrow> ([request, Status_received st], s1, Unmodelled))
                   | _ \<Rightarrow> ([request, Status_received st] @ caught, s1, Rescheduled))
             else if status st = ascii ''error'' then
               (let (evs, s1) = showError (cross (template_value (error st))) s
                in ([request, Status_received st] @ evs,
                    s1\<lparr>downloadBtn_disabled := False,
                       downloadBtn_innerHTML := label_download_now\<rparr>,
                    Finished_polling))
             else ([request, Status_received st], s, Finished_polling))"

text \<open>
  The loop: a run that rescheduled itself runs again on the next answer. The answers are
  given as a list; when the list is used up while the loop still polls, the next request
  has been issued and is \<open>In_flight\<close>.
\<close>

datatype loop_end = Halted | In_flight | Out_of_model

fun download_checkProgress ::
  "(job_status \<times> js_string) reply list \<Rightarrow> app_state \<Rightarrow> event list \<times> app_state \<times> loop_end" where
  "download_checkProgress [] s = ([Fetch (Download_status (currentDownloadId s))], s, In_flight)"
| "download_checkProgress (r # rs) s =
     (case download_check_once r s of
        (evs, s1, Rescheduled) \<Rightarrow>
          (case download_checkProgress rs s1 of (evs', s2, e) \<Rightarrow> (evs @ evs', s2, e))
      | (evs, s1, Finished_polling) \<Rightarrow> (evs, s1, Halted)
      | (evs, s1, Unmodelled) \<Rightarrow> (evs, s1, Out_of_model))"

definition monitorDownloadProgress ::
  "(job_status \<times> js_string) reply list \<Rightarrow> app_state \<Rightarrow> event list \<times> app_state \<times> loop_end" where
  "monitorDownloadProgress rs s =
     (if \<not> truthy (currentDownloadId s) then ([], s, Halted)
      else download_checkProgress rs s)"

definition startDownload ::
  "js_string option http_reply \<Rightarrow> (job_status \<times> js_string) reply list \<Rightarrow> app_state
     \<Rightarrow> event list \<times> app_state \<times> loop_end" where
  "startDownload r rs s =
     (case (selectedFormat s, currentVideoInfo s) of
        (Some f, Some info) \<Rightarrow>
          (let s1 = s\<lparr>downloadBtn_disabled := True, downloadBtn_innerHTML := label_starting\<rparr>;
               request = Fetch (Start_download (js_trim (urlInput_value s)) (format_id f) (title info));
               failed = (\<lambda>m. let (evs, s2) = showError (cross m) s1
                             in (request # evs,
                                 s2\<lparr>downloadBtn_disabled := False,
                                    downloadBtn_innerHTML := label_download_now\<rparr>,
                                 Halted))
           in case r of
                Ok_body download_id \<Rightarrow>
                  (case monitorDownloadProgress rs (s1\<lparr>currentDownloadId := download_id\<rparr>) of
                     (evs, s2, e) \<Rightarrow> (request # evs, s2, e))
              | Not_ok e \<Rightarrow> failed (or_else e (ascii ''Download failed''))
              | Rejected m \<Rightarrow> failed m)
      | _ \<Rightarrow>
          (let (evs, s1) = showError (cross (ascii ''Please select a format first'')) s
           in (evs, s1, Halted)))"

subsection \<open>Batch downloads\<close>

definition progress_percent :: "nat \<Rightarrow> nat \<Rightarrow> percentage" where
  "progress_percent c total_n =
     (if 2 ^ 53 \<le> c \<or> 2 ^ 53 \<le> total_n then Percent_beyond
      else if total_n = 0 then (if c = 0 then Percent_NaN else Percent_Infinity)
      else Percent (Math_round (binary64 (binary64 (of_nat c / of_nat total_n) * 100))))"

text \<open>One run of the closure \<open>checkProgress\<close> of \<open>monitorBatchProgress\<close>.\<close>

definition batch_check_once ::
  "js_string option \<Rightarrow> nat \<Rightarrow> job_status reply \<Rightarrow> app_state \<Rightarrow> event list \<times> app_state \<times> next_step" where
  "batch_check_once batchId total_n r s =
     (let request = Fetch (Download_status batchId)
      in case r of
           Failed \<Rightarrow> ([request, Console_error, Set_timeout Check_progress 2000], s, Rescheduled)
         | Replied st \<Rightarrow>
             if status st = ascii ''processing'' then
               (let c = (case completed st of None \<Rightarrow> 0 | Some n \<Rightarrow> n);
                    progress = progress_percent c total_n
                in ([request, Status_received st, Set_timeout Check_progress 2000],
                    s\<lparr>batchProgress_content := Batch_bar c total_n progress\<rparr>,
                    Rescheduled))
             else if status st = ascii ''finished'' then
               ([request, Status_received st],
                s\<lparr>batchProgress_content := Batch_completed total_n\<rparr>,
                Finished_polling)
             else ([request, Status_received st], s, Finished_polling))"

fun batch_checkProgress ::
  "js_string option \<Rightarrow> nat \<Rightarrow> job_status reply list \<Rightarrow> app_state \<Rightarrow> event list \<times> app_state \<times> loop_end" where
  "batch_checkProgress batchId total_n [] s = ([Fetch (Download_status batchId)], s, In_flight)"
| "batch_checkProgress batchId total_n (r # rs) s =
     (case batch_check_once batchId total_n r s of
        (evs, s1, Rescheduled) \<Rightarrow>
          (case batch_checkProgress batchId total_n rs s1 of (evs', s2, e) \<Rightarrow> (evs @ evs', s2, e))
      | (evs, s1, Finished_polling) \<Rightarrow> (evs, s1, Halted)
      | (evs, s1, Unmodelled) \<Rightarrow> (evs, s1, Out_of_model))"

definition monitorBatchProgress ::
  "js_string option \<Rightarrow> nat \<Rightarrow> job_status reply list \<Rightarrow> app_state \<Rightarrow> event list \<times> app_state \<times> loop_end" where
  "monitorBatchProgress batchId total_n rs s = batch_checkProgress batchId total_n rs s"

text \<open>
  \<open>startBatchDownload\<close>: the lines of the text area that are not blank, trimmed; the
  format is the selected one, or \<open>best\<close> when there is none or its identifier is empty.
\<close>

definition startBatchDownload ::
  "js_string option http_reply \<Rightarrow> job_status reply list \<Rightarrow> app_state \<Rightarrow> event list \<times> app_state \<times> loop_end" where
  "startBatchDownload r rs s =
     (let urlsText = js_trim (batchUrls_value s)
      in if urlsText = [] then ([], s, Halted)
         else
           let urls = map js_trim (filter (\<lambda>url. js_trim url \<noteq> []) (js_split 10 urlsText));
               fid = (case selectedFormat s of
                        None \<Rightarrow> ascii ''best''
                      | Some f \<Rightarrow> if format_id f = [] then ascii ''best'' else format_id f);
               s1 = s\<lparr>batchProgress_display := Display_block,
                      batchProgress_content := Batch_starting\<rparr>;
               request = Fetch (Batch_download urls fid);
               failed = (\<lambda>m. ([request], s1\<lparr>batchProgress_content := Batch_error_message (cross m)\<rparr>, Halted))
           in case r of
                Ok_body batch_id \<Rightarrow>
                  (case monitorBatchProgress batch_id (length urls) rs s1 of
                     (evs, s2, e) \<Rightarrow> (request # evs, s2, e))
              | Not_ok e \<Rightarrow> failed (or_else e (ascii ''Batch download failed''))
              | Rejected m \<Rightarrow> failed m)"

section \<open>Reading a run\<close>

text \<open>The statuses handled, the requests issued and the timers set, each in order.\<close>

fun received :: "event list \<Rightarrow> job_status list" where
  "received [] = []"
| "received (Status_received st # evs) = st # received evs"
| "received (_ # evs) = received evs"

fun requests :: "event list \<Rightarrow> request list" where
  "requests [] = []"
| "requests (Fetch q # evs) = q # requests evs"
| "requests (_ # evs) = requests evs"

fun timers :: "event list \<Rightarrow> (timer \<times> nat) list" where
  "timers [] = []"
| "timers (Set_timeout t ms # evs) = (t, ms) # timers evs"
| "timers (_ # evs) = timers evs"

text \<open>
  What a loop does on a row of \<open>downloading\<close> answers, each with its clock reading: per
  answer the request, the status handled and the timer of 1000 ms. What it does on a row
  of failed polls: per poll the request, the diagnostic and the timer of 2000 ms.
\<close>

definition downloading_events :: "request \<Rightarrow> (job_status \<times> js_string) list \<Rightarrow> event list" where
  "downloading_events q ds =
     concat (map (\<lambda>(st, t). [Fetch q, Status_received st, Set_timeout Check_progress 1000]) ds)"


text \<open>
  Appending history entries one after the other, each given as title, format name and
  time string; the run ends at the first call that does not complete.
\<close>

fun append_entries ::
  "(js_string \<times> js_string \<times> js_string) list \<Rightarrow> 'a history_store_scheme
     \<Rightarrow> 'a history_store_scheme outcome" where
  "append_entries [] s = Done s"
| "append_entries ((t, f, tm) # es) s =
     (case addToDownloadHistory t f tm s of
        Done s1 \<Rightarrow> append_entries es s1
      | Threw s1 \<Rightarrow> Threw s1
      | Beyond \<Rightarrow> Beyond)"

text \<open>
  The element that the template builds for an entry of literal text, by the texts of its
  two spans, and the entry as a record.
\<close>

definition entry_item :: "js_string \<times> js_string \<times> js_string \<Rightarrow> history_item" where
  "entry_item e = (case e of (t, f, tm) \<Rightarrow> [t, f @ [32, bullet, 32] @ tm])"

definition entry_record :: "js_string \<times> js_string \<times> js_string \<Rightarrow> history_record" where
  "entry_record e = (case e of (t, f, tm) \<Rightarrow> \<lparr>rec_title = t, rec_format = f, rec_time = tm\<rparr>)"



text \<open>A character after which neither \<open><\<close> nor \<open>&\<close> opens anything.\<close>

definition safe_follower :: "nat \<Rightarrow> bool" where
  "safe_follower b \<longleftrightarrow> \<not> opens_tag b \<and> \<not> opens_reference b"

text \<open>
  A record that the display text carries unchanged: literal text, no bullet in the format
  or the time, and nothing for \<open>trim\<close> to remove from them.
\<close>

definition clean_record :: "history_record \<Rightarrow> bool" where
  "clean_record r \<longleftrightarrow>
     literal 60 (rec_title r) \<and> literal 32 (rec_format r) \<and> literal 60 (rec_time r) \<and>
     bullet \<notin> set (rec_format r) \<and> bullet \<notin> set (rec_time r) \<and>
     js_trim (rec_format r) = rec_format r \<and> js_trim (rec_time r) = rec_time r"

section \<open>Sample values\<close>

text \<open>
  A page before any script has run: nothing stored, no inline style, no text.
\<close>

definition blank_page :: app_state where
  "blank_page =
     \<lparr>historyList = [], downloadHistory = None,
      currentDownloadId = None, currentVideoInfo = None, selectedFormat = None,
      urlInput_value = [], urlError_text = Page_text [], urlError_display = Display_unset,
      formatLoading_display = Display_unset, formatSection_display = Display_unset,
      videoInfo_display = Display_unset, videoThumbnail_src = [], videoTitle_text = [],
      videoDuration_text = [], formatGrid = [], progressSection_display = Display_unset,
      downloadBtn_display = Display_unset, downloadBtn_disabled = False,
      downloadBtn_innerHTML = [], downloadBtn_onclick = None,
      progressFill_width = Width_unset, progressText_text = [], downloadSpeed_text = [],
      fileSize_text = [], batchUrls_value = [], batchProgress_display = Display_unset,
      batchProgress_content = Batch_unset\<rparr>"

definition sample_format :: format_desc where
  "sample_format =
     \<lparr>format_id = ascii ''22'', name = ascii ''720p'', media_type = ascii ''video'',
      ext = ascii ''mp4''\<rparr>"

definition sample_audio :: format_desc where
  "sample_audio =
     \<lparr>format_id = ascii ''140'', name = ascii ''Audio'', media_type = ascii ''audio'',
      ext = ascii ''m4a''\<rparr>"

definition sample_info :: video_info where
  "sample_info =
     \<lparr>title = ascii ''Clip'', duration = 95, thumbnail = ascii ''t.jpg'',
      formats = [sample_format]\<rparr>"

definition other_info :: video_info where
  "other_info =
     \<lparr>title = ascii ''Song'', duration = 200, thumbnail = ascii ''u.jpg'',
      formats = [sample_audio]\<rparr>"

text \<open>A page in the middle of a download: metadata fetched, a format chosen, a job running.\<close>

definition sample_state :: app_state where
  "sample_state =
     blank_page\<lparr>currentDownloadId := Some (ascii ''job1''),
                currentVideoInfo := Some sample_info,
                selectedFormat := Some sample_format,
                urlInput_value := ascii ''https://example.com/v''\<rparr>"

definition status_only :: "js_string \<Rightarrow> job_status" where
  "status_only tag =
     \<lparr>status = tag, percent = None, speed = None, downloaded = None, total_size = None,
      completed = None, error = None\<rparr>"

definition sample_downloading :: job_status where
  "sample_downloading =
     \<lparr>status = ascii ''downloading'', percent = Some (ascii ''37.0%''),
      speed = Some (ascii ''1.2MiB/s''), downloaded = Some (ascii ''3.7MiB''),
      total_size = Some (ascii ''10MiB''), completed = None, error = None\<rparr>"

definition sample_error :: job_status where
  "sample_error = (status_only (ascii ''error''))\<lparr>error := Some (ascii ''boom'')\<rparr>"

definition sample_processing :: job_status where
  "sample_processing = (status_only (ascii ''processing''))\<lparr>completed := Some 3\<rparr>"

text \<open>Two \<open>downloading\<close> answers with their clock readings.\<close>

definition sample_polls :: "(job_status \<times> js_string) list" where
  "sample_polls = [(sample_downloading, ascii ''10:00:00''), (sample_downloading, ascii ''10:00:01'')]"

text \<open>Eleven history entries, oldest first.\<close>

definition sample_entries :: "(js_string \<times> js_string \<times> js_string) list" where
  "sample_entries =
     [(ascii ''a'', ascii ''720p'', ascii ''10:00:00''),
      (ascii ''b'', ascii ''720p'', ascii ''10:01:00''),
      (ascii ''c'', ascii ''720p'', ascii ''10:02:00''),
      (ascii ''d'', ascii ''720p'', ascii ''10:03:00''),
      (ascii ''e'', ascii ''720p'', ascii ''10:04:00''),
      (ascii ''f'', ascii ''720p'', ascii ''10:05:00''),
      (ascii ''g'', ascii ''720p'', ascii ''10:06:00''),
      (ascii ''h'', ascii ''720p'', ascii ''10:07:00''),
      (ascii ''i'', ascii ''720p'', ascii ''10:08:00''),
      (ascii ''j'', ascii ''720p'', ascii ''10:09:00''),
      (ascii ''k'', ascii ''Audio'', ascii ''10:10:00'')]"


text \<open>A running download of a video whose title is the tag \<open><span>\<close>.\<close>

definition markup_state :: app_state where
  "markup_state =
     sample_state\<lparr>currentVideoInfo := Some (sample_info\<lparr>title := ascii ''<span>''\<rparr>)\<rparr>"

section \<open>Properties\<close>

lemma ascii_simps [simp]:
  "ascii [] = []" "ascii (c # cs) = of_char c # ascii cs"
  by (simp_all add: ascii_def)

subsection \<open>Strings\<close>

lemma js_split_nonempty: "js_split sep s \<noteq> []"
  by (induction s) (auto split: list.splits)

lemma js_split_no_sep: "sep \<notin> set a \<Longrightarrow> js_split sep a = [a]"
  by (induction a) auto

lemma js_split_at_sep: "sep \<notin> set a \<Longrightarrow> js_split sep (a @ sep # b) = a # js_split sep b"
  by (induction a) auto

lemma js_split_pieces:
  "p \<in> set (js_split sep s) \<Longrightarrow> sep \<notin> set p \<and> (\<exists>xs ys. s = xs @ p @ ys)"
proof (induction s arbitrary: p)
  case Nil
  then show ?case by simp
next
  case (Cons c cs)
  obtain q qs where q: "js_split sep cs = q # qs"
    using js_split_nonempty[of sep cs] by (cases "js_split sep cs") auto
  have hq: "sep \<notin> set q \<and> (\<exists>ys. cs = q @ ys)"
  proof (cases cs)
    case Nil
    with q show ?thesis by simp
  next
    case (Cons d ds)
    show ?thesis
    proof (cases "sep \<in> set cs")
      case False
      with q js_split_no_sep[of sep cs] show ?thesis by simp
    next
      case True
      then obtain a b where ab: "cs = a @ sep # b" "sep \<notin> set a"
        by (meson split_list_first)
      with q js_split_at_sep[of sep a b] show ?thesis by simp
    qed
  qed
  show ?case
  proof (cases "c = sep")
    case True
    with Cons.prems have "p = [] \<or> p \<in> set (js_split sep cs)" by simp
    then show ?thesis
    proof
      assume e: "p = []"
      have "c # cs = [] @ [] @ (c # cs)" by simp
      then show ?thesis unfolding e by (metis empty_iff empty_set)
    next
      assume "p \<in> set (js_split sep cs)"
      from Cons.IH[OF this] obtain xs ys where "sep \<notin> set p" "cs = xs @ p @ ys" by blast
      then have "c # cs = (c # xs) @ p @ ys" by simp
      with \<open>sep \<notin> set p\<close> show ?thesis by blast
    qed
  next
    case False
    with Cons.prems q have "p = c # q \<or> p \<in> set qs" by auto
    then show ?thesis
    proof
      assume p: "p = c # q"
      from hq obtain ys where "cs = q @ ys" by blast
      then have "c # cs = [] @ p @ ys" using p by simp
      moreover have "sep \<notin> set p" using p hq False by simp
      ultimately show ?thesis by blast
    next
      assume "p \<in> set qs"
      then have "p \<in> set (js_split sep cs)" using q by simp
      from Cons.IH[OF this] obtain xs ys where "sep \<notin> set p" "cs = xs @ p @ ys" by blast
      then have "c # cs = (c # xs) @ p @ ys" by simp
      with \<open>sep \<notin> set p\<close> show ?thesis by blast
    qed
  qed
qed

lemma js_split_two: "sep \<in> set s \<Longrightarrow> 2 \<le> length (js_split sep s)"
proof (induction s)
  case Nil then show ?case by simp
next
  case (Cons c cs)
  show ?case
  proof (cases "c = sep")
    case True
    then show ?thesis using js_split_nonempty[of sep cs] by (cases "js_split sep cs") auto
  next
    case False
    with Cons show ?thesis by (cases "js_split sep cs") auto
  qed
qed



lemma js_trim_factor: "\<exists>xs ys. s = xs @ js_trim s @ ys"
proof -
  let ?a = "dropWhile js_whitespace s"
  let ?b = "dropWhile js_whitespace (rev ?a)"
  have 1: "s = takeWhile js_whitespace s @ ?a" by simp
  have "rev ?a = takeWhile js_whitespace (rev ?a) @ ?b" by simp
  then have 2: "?a = rev ?b @ rev (takeWhile js_whitespace (rev ?a))"
    by (metis rev_append rev_rev_ident)
  have "s = takeWhile js_whitespace s @ rev ?b @ rev (takeWhile js_whitespace (rev ?a))"
    using 1 2 by metis
  then show ?thesis unfolding js_trim_def by blast
qed

lemma dropWhile_twice: "dropWhile P (dropWhile P xs) = dropWhile P xs"
  by (induction xs) auto

lemma js_trim_idem: "js_trim (js_trim s) = js_trim s"
proof -
  let ?a = "dropWhile js_whitespace s"
  let ?b = "dropWhile js_whitespace (rev ?a)"
  have t: "js_trim s = rev ?b" by (simp add: js_trim_def)
  show ?thesis
  proof (cases "?b = []")
    case True
    from t have e: "js_trim s = []" unfolding True by simp
    have "js_trim [] = []" by (simp add: js_trim_def)
    then show ?thesis unfolding e .
  next
    case False
    have ne: "?a \<noteq> []"
    proof
      assume e: "?a = []"
      have "?b = []" unfolding e by simp
      with False show False by blast
    qed
    then have h: "\<not> js_whitespace (hd ?a)" by (metis hd_dropWhile)
    have lastb: "last ?b = hd ?a"
    proof -
      have "rev ?a = rev (tl ?a) @ [hd ?a]" using ne by (metis hd_Cons_tl rev.simps(2))
      then have "last (rev ?a) = hd ?a" by simp
      moreover have "last ?b = last (rev ?a)"
        using False by (metis append_Nil2 last_appendR takeWhile_dropWhile_id)
      ultimately show ?thesis by simp
    qed
    have "hd (rev ?b) = hd ?a" using False lastb by (simp add: hd_rev)
    then have "dropWhile js_whitespace (rev ?b) = rev ?b"
      using h False by (cases "rev ?b") auto
    moreover have "dropWhile js_whitespace ?b = ?b" by (rule dropWhile_twice)
    ultimately show ?thesis by (simp add: js_trim_def)
  qed
qed

lemma set_js_trim: "set (js_trim s) \<subseteq> set s"
proof -
  from js_trim_factor[of s] obtain xs ys where "s = xs @ js_trim s @ ys" by blast
  then have "set s = set xs \<union> set (js_trim s) \<union> set ys" by (metis set_append sup_assoc)
  then show ?thesis by blast
qed

subsection \<open>Literal text\<close>

lemma literal_no_cr: "literal a s \<Longrightarrow> normalize_newlines s = s"
  by (induction s rule: normalize_newlines.induct) auto

lemma span_tag_opens: "take 5 cs = ascii ''span>'' \<Longrightarrow> opens_tag (next_char a cs)"
  by (cases cs) (auto simp: opens_tag_def)

lemma literal_pieces: "literal a s \<Longrightarrow> html_pieces a s = Some [s]"
proof (induction s)
  case Nil
  then show ?case by simp
next
  case (Cons c cs)
  then have ih: "html_pieces a cs = Some [cs]" by simp
  from Cons.prems have c: "c \<noteq> 0" "\<not> (c = 60 \<and> opens_tag (next_char a cs))"
    "\<not> (c = 38 \<and> opens_reference (next_char a cs))" by simp_all
  have n: "\<not> (c = 60 \<and> take 5 cs = ascii ''span>'')"
    using c(2) span_tag_opens[of cs a] by blast
  have "html_pieces a (c # cs) =
      (case html_pieces a cs of
         None \<Rightarrow> None
       | Some [] \<Rightarrow> None
       | Some (p # ps) \<Rightarrow> Some ((if c = 0 then p else c # p) # ps))"
    using n c(2,3) by (simp only: html_pieces.simps if_False)
  then show ?case using c(1) ih by simp
qed

lemma literal_text: "literal a s \<Longrightarrow> html_text a s = Some s"
  by (simp add: html_text_def literal_no_cr literal_pieces)

lemma literal_suffix: "literal a (xs @ ys) \<Longrightarrow> literal a ys"
  by (induction xs) auto

lemma next_char_append: "next_char a (xs @ ys) = next_char (next_char a ys) xs"
  by (cases xs) auto

lemma literal_prefix:
  "literal a (xs @ ys) \<Longrightarrow> safe_follower b \<Longrightarrow> literal b xs"
proof (induction xs)
  case Nil
  then show ?case by simp
next
  case (Cons c cs)
  then have ih: "literal b cs" by simp
  from Cons.prems(1) have c: "c \<noteq> 0" "c \<noteq> 13"
    "\<not> (c = 60 \<and> opens_tag (next_char a (cs @ ys)))"
    "\<not> (c = 38 \<and> opens_reference (next_char a (cs @ ys)))" by simp_all
  show ?case
  proof (cases cs)
    case Nil
    with c Cons.prems(2) show ?thesis by (simp add: safe_follower_def)
  next
    case (Cons d ds)
    with c ih show ?thesis by simp
  qed
qed

lemma literal_factor:
  "literal a (xs @ p @ ys) \<Longrightarrow> safe_follower b \<Longrightarrow> literal b p"
  using literal_suffix[of a xs "p @ ys"] literal_prefix[of a p ys b] by blast

lemma literal_append:
  "literal (next_char a ys) xs \<Longrightarrow> literal a ys \<Longrightarrow> literal a (xs @ ys)"
proof (induction xs)
  case Nil
  then show ?case by simp
next
  case (Cons c cs)
  then show ?case by (cases cs) auto
qed

lemma literal_keeps_pattern:
  assumes "literal a s" and "opens_tag d"
  shows "js_replace (60 # d # pat) rep s = s"
  using assms(1)
proof (induction s)
  case Nil
  then show ?case by simp
next
  case (Cons c cs)
  have "\<not> prefix (60 # d # pat) (c # cs)"
  proof
    assume "prefix (60 # d # pat) (c # cs)"
    then obtain zs where "c # cs = (60 # d # pat) @ zs" by (auto simp: prefix_def)
    then have "c = 60" "next_char a cs = d" by auto
    with Cons.prems assms(2) show False by simp
  qed
  then have "js_replace (60 # d # pat) rep (c # cs) = c # js_replace (60 # d # pat) rep cs"
    by (simp only: js_replace.simps if_False)
  moreover have "literal a cs" using Cons.prems by simp
  ultimately show ?case using Cons.IH by simp
qed

lemma literal_title_kept:
  assumes "literal a t"
  shows "js_replace (ascii ''</strong>'') [] (js_replace (ascii ''<strong>'') [] t) = t"
proof -
  have s: "opens_tag 115" and e: "opens_tag 47" by (simp_all add: opens_tag_def)
  have "js_replace (60 # 115 # ascii ''trong>'') [] t = t"
    using assms s by (rule literal_keeps_pattern)
  moreover have "js_replace (60 # 47 # ascii ''strong>'') [] t = t"
    using assms e by (rule literal_keeps_pattern)
  ultimately show ?thesis by simp
qed

lemma safe_followers: "safe_follower 32" "safe_follower 60"
  by (simp_all add: safe_follower_def opens_tag_def opens_reference_def)

lemma literal_entry_template:
  assumes "literal 60 t" "literal 32 f" "literal 60 tm"
  shows "history_template t f tm = Some (entry_item (t, f, tm))"
  using assms
  by (simp add: history_template_def entry_item_def literal_no_cr literal_pieces literal_text)

text \<open>A line built from literal text always yields a record, and the record is clean.\<close>

lemma rendered_item_record:
  assumes "literal 60 t" "literal 32 f" "literal 60 tm"
  shows "\<exists>r. item_record (entry_item (t, f, tm)) = Some r \<and> clean_record r"
proof -
  let ?line = "f @ [32, bullet, 32] @ tm"
  let ?parts = "js_split bullet ?line"
  have len: "2 \<le> length ?parts" by (rule js_split_two) simp
  have "literal 60 ([32, bullet, 32] @ tm)"
    using assms(3) by (cases tm) (simp_all add: bullet_def)
  then have pl: "literal 60 ?line"
    using assms(2) by (intro literal_append) simp_all
  have p0: "?parts ! 0 \<in> set ?parts" and p1: "?parts ! 1 \<in> set ?parts"
    using len by (auto intro: nth_mem)
  have piece: "bullet \<notin> set (js_trim p) \<and> literal b (js_trim p)"
    if "p \<in> set ?parts" and "safe_follower b" for p b
  proof -
    from js_split_pieces[OF that(1)] obtain xs ys where
      a: "bullet \<notin> set p" "?line = xs @ p @ ys" by blast
    from js_trim_factor[of p] obtain us vs where b: "p = us @ js_trim p @ vs" by blast
    have "?line = (xs @ us) @ js_trim p @ (vs @ ys)" using a(2) b by (metis append.assoc)
    with pl have "literal 60 ((xs @ us) @ js_trim p @ (vs @ ys))" by simp
    then have "literal b (js_trim p)" using that(2) by (rule literal_factor)
    moreover have "bullet \<notin> set (js_trim p)" using a(1) set_js_trim[of p] by blast
    ultimately show ?thesis by simp
  qed
  let ?r = "\<lparr>rec_title = t, rec_format = js_trim (?parts ! 0), rec_time = js_trim (?parts ! 1)\<rparr>"
  have "item_record (entry_item (t, f, tm)) = Some ?r"
    using len literal_title_kept[OF assms(1)]
    by (simp add: item_record_def entry_item_def Let_def del: ascii_simps)
  moreover have "clean_record ?r"
    using piece[OF p0 safe_followers(1)] piece[OF p1 safe_followers(2)] assms(1)
    by (simp add: clean_record_def js_trim_idem)
  ultimately show ?thesis by blast
qed


subsection \<open>Doubles\<close>

lemma pow2_powi: "pow2 e = 2 powi e"
  by (simp add: pow2_def power_int_def inverse_eq_divide power_one_over)

lemma pow2_pos: "0 < pow2 e"
  by (simp add: pow2_powi)

lemma pow2_add: "pow2 (a + b) = pow2 a * pow2 b"
  by (simp add: pow2_powi power_int_add)

lemma pow2_mono: "a \<le> b \<Longrightarrow> pow2 a \<le> pow2 b"
  by (simp add: pow2_powi power_int_increasing)

lemma pow2_nat: "pow2 (int n) = 2 ^ n"
  by (simp add: pow2_def)

lemma pow2_neg_nat: "pow2 (- int n) = 1 / 2 ^ n"
  by (simp add: pow2_powi power_int_minus inverse_eq_divide)

lemma floor_log2_bounds:
  assumes "0 < q"
  shows "pow2 (floor_log2 q) \<le> q \<and> q < pow2 (floor_log2 q + 1)"
proof (cases "1 \<le> q")
  case True
  let ?n = "\<lfloor>q\<rfloor>"
  have n: "1 \<le> ?n" using True by simp
  then have pos: "0 < ?n" by simp
  from bitlen_bounds[OF pos] have b: "2 ^ nat (bitlen ?n - 1) \<le> ?n" "?n < 2 ^ nat (bitlen ?n)"
    by auto
  have bl: "1 \<le> bitlen ?n" using pos by (simp add: bitlen_alt_def)
  have f: "floor_log2 q = bitlen ?n - 1" using True by (simp add: floor_log2_def)
  have "pow2 (bitlen ?n - 1) = 2 ^ nat (bitlen ?n - 1)" using bl by (simp add: pow2_def)
  also have "\<dots> = of_int (2 ^ nat (bitlen ?n - 1))" by simp
  also have "\<dots> \<le> of_int ?n" using b(1) by (simp only: of_int_le_iff)
  also have "\<dots> \<le> q" by simp
  finally have lo: "pow2 (floor_log2 q) \<le> q" unfolding f .
  have "?n + 1 \<le> 2 ^ nat (bitlen ?n)" using b(2) by simp
  then have "(of_int (?n + 1) :: rat) \<le> of_int (2 ^ nat (bitlen ?n))" by (simp only: of_int_le_iff)
  moreover have "q < of_int (?n + 1)" by linarith
  ultimately have "q < of_int (2 ^ nat (bitlen ?n))" by linarith
  also have "\<dots> = pow2 (bitlen ?n)" using bl by (simp add: pow2_def)
  finally have hi: "q < pow2 (floor_log2 q + 1)" unfolding f by simp
  from lo hi show ?thesis ..
next
  case False
  then have q1: "q < 1" by simp
  let ?y = "1 / q"
  let ?M = "\<lceil>?y\<rceil> - 1"
  have y1: "1 < ?y" using assms q1 by simp
  then have "2 \<le> \<lceil>?y\<rceil>" by linarith
  then have pos: "0 < ?M" by simp
  from bitlen_bounds[OF pos] have b: "2 ^ nat (bitlen ?M - 1) \<le> ?M" "?M < 2 ^ nat (bitlen ?M)"
    by auto
  have bl: "1 \<le> bitlen ?M" using pos by (simp add: bitlen_alt_def)
  have f: "floor_log2 q = - bitlen ?M" using False by (simp add: floor_log2_def)
  define m where "m = nat (bitlen ?M - 1)"
  have m: "bitlen ?M = int (Suc m)" using bl by (simp add: m_def)
  have nm: "nat (bitlen ?M) = Suc m" "nat (bitlen ?M - 1) = m" using bl by (simp_all add: m_def)
  have b1: "2 ^ m \<le> ?M" using b(1) unfolding nm .
  have b2: "?M < 2 ^ Suc m" using b(2) unfolding nm .
  have "?y \<le> of_int \<lceil>?y\<rceil>" by simp
  also have "\<dots> \<le> of_int (2 ^ Suc m)" using b2 by (simp only: of_int_le_iff)
  finally have yle: "?y \<le> 2 ^ Suc m" by simp
  have "1 / 2 ^ Suc m \<le> q"
  proof -
    have "1 \<le> q * 2 ^ Suc m" using yle assms by (simp add: field_simps)
    then show ?thesis by (simp add: field_simps)
  qed
  then have lo: "pow2 (floor_log2 q) \<le> q" unfolding f m pow2_neg_nat .
  have "(of_int (2 ^ m) :: rat) \<le> of_int ?M" using b1 by (simp only: of_int_le_iff)
  moreover have "of_int ?M < ?y" by linarith
  ultimately have ylt: "2 ^ m < ?y" by simp
  have "q < 1 / 2 ^ m"
  proof -
    have "q * 2 ^ m < 1" using ylt assms by (simp add: field_simps)
    then show ?thesis by (simp add: field_simps)
  qed
  moreover have "floor_log2 q + 1 = - int m" unfolding f m by simp
  ultimately have hi: "q < pow2 (floor_log2 q + 1)" by (simp add: pow2_neg_nat)
  from lo hi show ?thesis ..
qed

lemma floor_log2_eq:
  assumes "pow2 f \<le> q" and "q < pow2 (f + 1)"
  shows "floor_log2 q = f"
proof -
  have q: "0 < q" using assms(1) pow2_pos[of f] by linarith
  from floor_log2_bounds[OF q] have b: "pow2 (floor_log2 q) \<le> q" "q < pow2 (floor_log2 q + 1)"
    by auto
  show ?thesis
  proof (rule ccontr)
    assume "floor_log2 q \<noteq> f"
    then consider "floor_log2 q + 1 \<le> f" | "f + 1 \<le> floor_log2 q" by linarith
    then show False
    proof cases
      case 1
      from pow2_mono[OF 1] b(2) assms(1) show False by linarith
    next
      case 2
      from pow2_mono[OF 2] b(1) assms(2) show False by linarith
    qed
  qed
qed

lemma round_half_even_error: "\<bar>of_int (round_half_even x) - x\<bar> \<le> 1 / 2"
proof -
  define f where "f = \<lfloor>x\<rfloor>"
  define r where "r = x - of_int f"
  have r: "0 \<le> r" "r < 1" unfolding r_def f_def by linarith+
  have x: "x = of_int f + r" by (simp add: r_def)
  have d: "round_half_even x =
      (if r < 1 / 2 then f else if 1 / 2 < r then f + 1 else if even f then f else f + 1)"
    by (simp add: round_half_even_def Let_def f_def r_def)
  consider "r < 1 / 2" | "1 / 2 < r" | "r = 1 / 2" by linarith
  then show ?thesis
  proof cases
    case 1
    then have "round_half_even x = f" by (simp add: d)
    then have "of_int (round_half_even x) - x = - r" by (simp add: r_def)
    then show ?thesis using 1 r by simp
  next
    case 2
    then have "round_half_even x = f + 1" by (simp add: d)
    then have "of_int (round_half_even x) - x = 1 - r" by (simp add: r_def)
    then show ?thesis using 2 r by simp
  next
    case 3
    then have "round_half_even x = f \<or> round_half_even x = f + 1" by (simp add: d)
    then have "of_int (round_half_even x) - x = - r \<or> of_int (round_half_even x) - x = 1 - r"
      by (auto simp: r_def)
    then show ?thesis using 3 by auto
  qed
qed

lemma binary64_error:
  assumes "0 < q"
  shows "\<bar>binary64 q - q\<bar> \<le> q / 2 ^ 53"
proof -
  define e where "e = floor_log2 q - 52"
  define m where "m = round_half_even (q / pow2 e)"
  have b: "binary64 q = of_int m * pow2 e"
    using assms by (simp add: binary64_def e_def m_def Let_def)
  have pe: "0 < pow2 e" by (rule pow2_pos)
  have "binary64 q - q = (of_int m - q / pow2 e) * pow2 e"
    using pe unfolding b by (simp add: field_simps)
  then have "\<bar>binary64 q - q\<bar> = \<bar>of_int m - q / pow2 e\<bar> * pow2 e"
    using pe by (simp add: abs_mult)
  also have "\<dots> \<le> (1 / 2) * pow2 e"
    using round_half_even_error[of "q / pow2 e"] pe unfolding m_def
    by (intro mult_right_mono) auto
  finally have 1: "\<bar>binary64 q - q\<bar> \<le> pow2 e / 2" by simp
  have "pow2 (floor_log2 q) = pow2 (e + 52)" by (simp add: e_def)
  also have "\<dots> = pow2 e * pow2 52" by (rule pow2_add)
  also have "pow2 52 = 2 ^ 52" by (simp add: pow2_def)
  finally have "pow2 e * 2 ^ 52 \<le> q" using floor_log2_bounds[OF assms] by simp
  then have "pow2 e / 2 \<le> q / 2 ^ 53" by (simp add: field_simps)
  with 1 show ?thesis by linarith
qed

lemma binary64_pos: "0 < q \<Longrightarrow> 0 < binary64 q"
proof -
  assume q: "0 < q"
  have "q / 2 ^ 53 < q" using q by (simp add: field_simps)
  with binary64_error[OF q] show ?thesis by linarith
qed

lemma binary64_at:
  assumes "pow2 f \<le> q" and "q < pow2 (f + 1)"
    and "of_int m - 1 / 2 < q / pow2 (f - 52)" and "q / pow2 (f - 52) < of_int m + 1 / 2"
  shows "binary64 q = of_int m * pow2 (f - 52)"
proof -
  have q: "0 < q" using assms(1) pow2_pos[of f] by linarith
  have fl: "floor_log2 q = f" using assms(1,2) by (rule floor_log2_eq)
  let ?x = "q / pow2 (f - 52)"
  have "m \<le> \<lfloor>?x + 1 / 2\<rfloor>" "\<lfloor>?x + 1 / 2\<rfloor> \<le> m" using assms(3,4) by linarith+
  have r: "round_half_even ?x = m"
  proof -
    have d: "round_half_even ?x =
        (if ?x - of_int \<lfloor>?x\<rfloor> < 1 / 2 then \<lfloor>?x\<rfloor>
         else if 1 / 2 < ?x - of_int \<lfloor>?x\<rfloor> then \<lfloor>?x\<rfloor> + 1
         else if even \<lfloor>?x\<rfloor> then \<lfloor>?x\<rfloor> else \<lfloor>?x\<rfloor> + 1)"
      by (simp add: round_half_even_def Let_def)
    have e: "\<bar>of_int (round_half_even ?x) - ?x\<bar> \<le> 1 / 2" by (rule round_half_even_error)
    have "of_int (round_half_even ?x) < (of_int m :: rat) + 1" using e assms(4) by linarith
    moreover have "(of_int m :: rat) - 1 < of_int (round_half_even ?x)" using e assms(3) by linarith
    ultimately have "round_half_even ?x < m + 1" "m - 1 < round_half_even ?x"
      by (metis of_int_less_iff of_int_add of_int_1, metis of_int_less_iff of_int_diff of_int_1)
    then show ?thesis by linarith
  qed
  show ?thesis using q fl r by (simp add: binary64_def Let_def)
qed

lemma three_sevenths: "binary64 (3 / 7) = 7720456504063707 / 2 ^ 54"
proof -
  have "binary64 (3 / 7) = of_int 7720456504063707 * pow2 (- 2 - 52)"
    by (rule binary64_at) (simp_all add: pow2_def)
  then show ?thesis by (simp add: pow2_def)
qed

lemma three_sevenths_percent:
  "binary64 (binary64 (3 / 7) * 100) = 6031606643799771 / 2 ^ 47"
proof -
  have "binary64 (7720456504063707 / 2 ^ 54 * 100) = of_int 6031606643799771 * pow2 (5 - 52)"
    by (rule binary64_at) (simp_all add: pow2_def)
  then show ?thesis by (simp add: pow2_def three_sevenths)
qed

lemma Math_round_three_sevenths: "Math_round (binary64 (binary64 (3 / 7) * 100)) = 43"
  unfolding three_sevenths_percent Math_round_def by (rule floor_unique) simp_all

lemma tie_23_40: "Math_round (binary64 (binary64 (23 / 40) * 100)) = 57"
proof -
  have "binary64 (23 / 40) = of_int 5179139571476070 * pow2 (- 1 - 52)"
    by (rule binary64_at) (simp_all add: pow2_def)
  then have a: "binary64 (23 / 40) = 5179139571476070 / 2 ^ 53" by (simp add: pow2_def)
  have "binary64 (5179139571476070 / 2 ^ 53 * 100) = of_int 8092405580431359 * pow2 (5 - 52)"
    by (rule binary64_at) (simp_all add: pow2_def)
  then have b: "binary64 (binary64 (23 / 40) * 100) = 8092405580431359 / 2 ^ 47"
    by (simp add: pow2_def a)
  show ?thesis unfolding b Math_round_def by (rule floor_unique) simp_all
qed

lemma percent_error:
  fixes c t :: nat
  assumes "0 < t"
  shows "\<bar>binary64 (binary64 (of_nat c / of_nat t) * 100) - 100 * of_nat c / of_nat t\<bar>
           \<le> 201 * (of_nat c / of_nat t) / 2 ^ 53"
proof (cases "c = 0")
  case True
  then show ?thesis by (simp add: binary64_def)
next
  case False
  define q :: rat where "q = of_nat c / of_nat t"
  have q: "0 < q" using False assms by (simp add: q_def)
  define a where "a = binary64 q"
  have ea: "\<bar>a - q\<bar> \<le> q / 2 ^ 53" unfolding a_def by (rule binary64_error[OF q])
  have a0: "0 < a" unfolding a_def by (rule binary64_pos[OF q])
  have e1: "\<bar>a * 100 - 100 * q\<bar> \<le> 100 * (q / 2 ^ 53)"
  proof -
    have "\<bar>a * 100 - 100 * q\<bar> = 100 * \<bar>a - q\<bar>" by (simp add: abs_if)
    also have "\<dots> \<le> 100 * (q / 2 ^ 53)" using ea by simp
    finally show ?thesis .
  qed
  have y0: "0 < a * 100" using a0 by simp
  have tiny: "100 * (q / 2 ^ 53) \<le> q" using q by simp
  have yb: "a * 100 \<le> 101 * q" using e1 tiny by linarith
  have e2: "\<bar>binary64 (a * 100) - a * 100\<bar> \<le> 101 * (q / 2 ^ 53)"
  proof -
    have "\<bar>binary64 (a * 100) - a * 100\<bar> \<le> a * 100 / 2 ^ 53" by (rule binary64_error[OF y0])
    also have "\<dots> \<le> 101 * q / 2 ^ 53" using yb by (simp add: divide_right_mono)
    finally show ?thesis by simp
  qed
  have "\<bar>binary64 (a * 100) - 100 * q\<bar> \<le> 201 * (q / 2 ^ 53)" using e1 e2 by linarith
  then show ?thesis by (simp add: a_def q_def)
qed

lemma percent_exact_off_ties:
  fixes c t :: nat
  assumes "0 < t" and "c < 2 ^ 44" and "(200 * c) mod (2 * t) \<noteq> t"
  shows "Math_round (binary64 (binary64 (of_nat c / of_nat t) * 100)) =
           (200 * int c + int t) div (2 * int t)"
proof -
  define x :: rat where "x = 100 * of_nat c / of_nat t"
  define xt where "xt = binary64 (binary64 (of_nat c / of_nat t) * 100)"
  define n where "n = (200 * int c + int t) div (2 * int t)"
  define r where "r = (200 * int c + int t) mod (2 * int t)"
  have t0: "(0 :: rat) < of_nat t" using assms(1) by simp
  have d: "200 * int c + int t = 2 * int t * n + r" unfolding n_def r_def by simp
  have r_lo: "0 \<le> r" and r_hi: "r < 2 * int t" using assms(1) by (simp_all add: r_def)
  have r_ne: "r \<noteq> 0"
  proof
    assume "r = 0"
    then have "200 * int c + int t = 2 * int t * n" using d by simp
    then have "200 * int c = 2 * int t * (n - 1) + int t" by (simp add: algebra_simps)
    then have "(200 * int c) mod (2 * int t) = int t mod (2 * int t)"
      by (metis mod_mult_self4)
    then have "(200 * int c) mod (2 * int t) = int t" using assms(1) by simp
    then have "int ((200 * c) mod (2 * t)) = int t" by (simp add: zmod_int)
    with assms(3) show False by simp
  qed
  have xr: "x + 1 / 2 = of_int n + of_int r / (2 * of_nat t)"
  proof -
    have "x + 1 / 2 = of_int (200 * int c + int t) / (2 * of_nat t)"
      using t0 by (simp add: x_def field_simps)
    also have "\<dots> = of_int (2 * int t * n + r) / (2 * of_nat t)" by (simp only: d)
    also have "\<dots> = of_int n + of_int r / (2 * of_nat t)" using t0 by (simp add: field_simps)
    finally show ?thesis .
  qed
  have small: "201 * (of_nat c / of_nat t) / 2 ^ 53 < (1 :: rat) / (2 * of_nat t)"
  proof -
    have "(of_nat c :: rat) < of_nat (2 ^ 44)" using assms(2) by (simp only: of_nat_less_iff)
    then have "(of_nat c :: rat) < 2 ^ 44" by simp
    then have k: "402 * (of_nat c :: rat) < 2 ^ 53" by simp
    have "201 * (of_nat c / of_nat t) / 2 ^ 53 = (402 * of_nat c / 2 ^ 53) * ((1 :: rat) / (2 * of_nat t))"
      by simp
    also have "\<dots> < 1 * ((1 :: rat) / (2 * of_nat t))"
    proof (rule mult_strict_right_mono)
      show "402 * of_nat c / 2 ^ 53 < (1 :: rat)" using k by simp
      show "(0 :: rat) < 1 / (2 * of_nat t)" using t0 by simp
    qed
    finally show ?thesis by simp
  qed
  have lo: "1 / (2 * of_nat t) \<le> (of_int r :: rat) / (2 * of_nat t)"
  proof -
    have "1 \<le> r" using r_lo r_ne by simp
    then have "(1 :: rat) \<le> of_int r" by simp
    then show ?thesis using t0 by (simp add: divide_right_mono)
  qed
  have hi: "(of_int r :: rat) / (2 * of_nat t) \<le> 1 - 1 / (2 * of_nat t)"
  proof -
    have "r \<le> 2 * int t - 1" using r_hi by simp
    then have "(of_int r :: rat) \<le> of_int (2 * int t - 1)" by (simp only: of_int_le_iff)
    then have "(of_int r :: rat) \<le> 2 * of_nat t - 1" by simp
    then have "(of_int r :: rat) / (2 * of_nat t) \<le> (2 * of_nat t - 1) / (2 * of_nat t)"
      using t0 by (simp add: divide_right_mono)
    also have "\<dots> = 1 - 1 / (2 * of_nat t)" using t0 by (simp add: field_simps)
    finally show ?thesis .
  qed
  have err: "\<bar>xt - x\<bar> \<le> 201 * (of_nat c / of_nat t) / 2 ^ 53"
    unfolding xt_def x_def using percent_error[OF assms(1), of c] by simp
  have "of_int n \<le> xt + 1 / 2" "xt + 1 / 2 < of_int n + 1"
    using xr lo hi err small by linarith+
  then have "\<lfloor>xt + 1 / 2\<rfloor> = n" by (intro floor_unique) simp_all
  then show ?thesis by (simp add: Math_round_def xt_def n_def)
qed

lemma percent_exact_value:
  fixes c t :: nat
  assumes "0 < t"
  shows "Math_round (of_nat c / of_nat t * 100) = (200 * int c + int t) div (2 * int t)"
proof -
  have t0: "(0 :: rat) < of_nat t" using assms by simp
  have "of_nat c / of_nat t * 100 + 1 / 2 = (of_int (200 * int c + int t) :: rat) / of_int (2 * int t)"
    using t0 by (simp add: field_simps)
  then have "Math_round (of_nat c / of_nat t * 100) =
      \<lfloor>(of_int (200 * int c + int t) :: rat) / of_int (2 * int t)\<rfloor>"
    by (simp only: Math_round_def)
  also have "\<dots> = (200 * int c + int t) div (2 * int t)" by (rule floor_divide_of_int_eq)
  finally show ?thesis .
qed

text \<open>
  At a tie the double result can fall just below the half: the percentage is the exactly
  rounded one or one less.
\<close>

lemma percent_at_tie:
  fixes c t :: nat
  assumes "0 < t" and "c < 2 ^ 44" and "(200 * c) mod (2 * t) = t"
  shows "Math_round (binary64 (binary64 (of_nat c / of_nat t) * 100)) =
           Math_round (of_nat c / of_nat t * 100) \<or>
         Math_round (binary64 (binary64 (of_nat c / of_nat t) * 100)) =
           Math_round (of_nat c / of_nat t * 100) - 1"
proof -
  define k where "k = (200 * c) div (2 * t)"
  define x :: rat where "x = 100 * of_nat c / of_nat t"
  define y :: rat where "y = binary64 (binary64 (of_nat c / of_nat t) * 100)"
  have "200 * c = 2 * t * k + t"
    using assms(3) div_mult_mod_eq[of "200 * c" "2 * t"] unfolding k_def by (simp add: mult.commute)
  then have "(of_nat (200 * c) :: rat) = of_nat (2 * t * k + t)" by simp
  then have "200 * (of_nat c :: rat) = 2 * of_nat t * of_nat k + of_nat t" by simp
  then have "100 * (of_nat c :: rat) = of_nat t * (of_nat k + 1 / 2)"
    by (simp add: algebra_simps)
  then have xk: "x = of_nat k + 1 / 2"
    using assms(1) unfolding x_def by (simp add: field_simps)
  have tpos: "(0 :: rat) < of_nat t" using assms(1) by simp
  have "(of_nat c :: rat) / of_nat t \<le> of_nat c"
  proof -
    have "(1 :: rat) \<le> of_nat t" using assms(1) by (simp add: Suc_leI)
    then have "(of_nat c :: rat) * 1 \<le> of_nat c * of_nat t"
      by (intro mult_left_mono) simp_all
    then show ?thesis using tpos by (simp add: field_simps)
  qed
  moreover have "(of_nat c :: rat) < 2 ^ 44"
    using assms(2) by (metis of_nat_less_iff of_nat_numeral of_nat_power)
  ultimately have q: "(of_nat c :: rat) / of_nat t < 2 ^ 44" by simp
  have "\<bar>y - x\<bar> \<le> 201 * (of_nat c / of_nat t) / 2 ^ 53"
    unfolding x_def y_def using percent_error[OF assms(1), of c] by simp
  also have "\<dots> < 201 * 2 ^ 44 / 2 ^ 53" using q by (simp add: field_simps)
  also have "\<dots> < (1 / 2 :: rat)" by simp
  finally have near: "\<bar>y - x\<bar> < 1 / 2" .
  then have lo: "of_nat k < y" and hi: "y < of_nat k + 1"
    unfolding xk by linarith+
  have rx: "Math_round x = int k + 1"
    unfolding Math_round_def xk by simp
  have "int k \<le> \<lfloor>y + 1 / 2\<rfloor>"
    using lo by (simp add: le_floor_iff)
  moreover have "\<lfloor>y + 1 / 2\<rfloor> < int k + 2"
    using hi by (simp add: floor_less_iff)
  ultimately have "Math_round y = int k + 1 \<or> Math_round y = int k"
    unfolding Math_round_def by linarith
  with rx have "Math_round y = Math_round x \<or> Math_round y = Math_round x - 1" by simp
  moreover have "of_nat c / of_nat t * 100 = x" unfolding x_def by simp
  ultimately show ?thesis unfolding y_def by simp
qed

subsection \<open>The history store\<close>

lemma map_records_iff: "map_records xs = Some rs \<longleftrightarrow> map item_record xs = map Some rs"
proof (induction xs arbitrary: rs)
  case Nil
  then show ?case by auto
next
  case (Cons i xs)
  show ?case
  proof (cases "item_record i")
    case None
    then show ?thesis by (cases rs) auto
  next
    case r: (Some r)
    show ?thesis
    proof (cases "map_records xs")
      case None
      with Cons[of "tl rs"] r show ?thesis by (cases rs) auto
    next
      case (Some rs')
      with Cons[of rs'] Cons[of "tl rs"] r show ?thesis by (cases rs) auto
    qed
  qed
qed

lemma map_records_take:
  "map_records xs = Some rs \<Longrightarrow> map_records (take n xs) = Some (take n rs)"
  unfolding map_records_iff by (metis take_map)


lemma history_lines_map [simp]: "history_lines (map Line xs) = xs"
  by (induction xs) auto

lemma children_length_map [simp]: "children_length (map Line xs) = length xs"
  by (induction xs) auto

lemma evict_is_take:
  "(if length xs > 10 then butlast xs else xs) = take (max 10 (length xs - 1)) xs"
  by (auto simp: butlast_conv_take max_def)

text \<open>
  Whatever the strings, a call of \<open>addToDownloadHistory\<close> touches nothing but the list and
  the stored value.
\<close>

lemma addToDownloadHistory_frame:
  "addToDownloadHistory t f tm s = Done s' \<or> addToDownloadHistory t f tm s = Threw s' \<Longrightarrow>
   \<exists>ns h. s' = s\<lparr>historyList := ns, downloadHistory := h\<rparr>"
proof -
  assume a: "addToDownloadHistory t f tm s = Done s' \<or> addToDownloadHistory t f tm s = Threw s'"
  show ?thesis
  proof (cases "history_template t f tm")
    case None
    with a show ?thesis by (simp add: addToDownloadHistory_def)
  next
    case (Some i)
    let ?ns = "if children_length (Line i # historyList s) > 10
               then butlast (Line i # historyList s) else Line i # historyList s"
    have d: "addToDownloadHistory t f tm s = saveDownloadHistory (s\<lparr>historyList := ?ns\<rparr>)"
      using Some by (simp add: addToDownloadHistory_def Let_def)
    show ?thesis
    proof (cases "map_records (history_lines ?ns)")
      case None
      then have "addToDownloadHistory t f tm s = Threw (s\<lparr>historyList := ?ns\<rparr>)"
        unfolding d by (simp add: saveDownloadHistory_def)
      with a have "s' = s\<lparr>historyList := ?ns\<rparr>" by auto
      then have "s' = s\<lparr>historyList := ?ns, downloadHistory := downloadHistory s\<rparr>" by simp
      then show ?thesis by blast
    next
      case (Some h)
      then have "addToDownloadHistory t f tm s =
          Done (s\<lparr>historyList := ?ns, downloadHistory := Some h\<rparr>)"
        unfolding d by (simp add: saveDownloadHistory_def)
      with a have "s' = s\<lparr>historyList := ?ns, downloadHistory := Some h\<rparr>" by auto
      then show ?thesis by blast
    qed
  qed
qed

text \<open>
  On a list that holds lines only, each with its record, appending a literal entry
  completes.
\<close>

lemma addToDownloadHistory_done:
  assumes "literal 60 t" "literal 32 f" "literal 60 tm"
    and "historyList s = map Line items" and "map_records items = Some rs"
  shows "\<exists>r. item_record (entry_item (t, f, tm)) = Some r \<and> clean_record r \<and>
           addToDownloadHistory t f tm s =
             Done (s\<lparr>historyList :=
                       map Line (take (max 10 (length items)) (entry_item (t, f, tm) # items)),
                     downloadHistory :=
                       Some (take (max 10 (length items)) (r # rs))\<rparr>)"
proof -
  from rendered_item_record[OF assms(1-3)] obtain r
    where r: "item_record (entry_item (t, f, tm)) = Some r" "clean_record r" by blast
  let ?c = "entry_item (t, f, tm) # items"
  let ?m = "max 10 (length items)"
  have full: "map_records ?c = Some (r # rs)" using r(1) assms(5) by simp
  have tmpl: "history_template t f tm = Some (entry_item (t, f, tm))"
    using assms(1-3) by (rule literal_entry_template)
  have nodes: "Line (entry_item (t, f, tm)) # historyList s = map Line ?c"
    using assms(4) by simp
  have ev: "(if children_length (map Line ?c) > 10 then butlast (map Line ?c) else map Line ?c) =
        map Line (take ?m ?c)"
  proof (cases "length ?c > 10")
    case True
    then have m: "?m = length ?c - 1" by (simp add: max_def)
    have "butlast (map Line ?c) = map Line (butlast ?c)" by (rule map_butlast[symmetric])
    also have "butlast ?c = take ?m ?c" unfolding m by (rule butlast_conv_take)
    finally have "butlast (map Line ?c) = map Line (take ?m ?c)" .
    moreover have "children_length (map Line ?c) > 10" using True by simp
    ultimately show ?thesis by (simp only: if_True)
  next
    case False
    then have "take ?m ?c = ?c" by (simp add: max_def)
    moreover have "\<not> children_length (map Line ?c) > 10"
      using False by simp
    ultimately show ?thesis by (simp only: if_False)
  qed
  have saved: "map_records (history_lines (map Line (take ?m ?c))) = Some (take ?m (r # rs))"
    using map_records_take[OF full, of ?m] by simp
  let ?i = "entry_item (t, f, tm)"
  have "addToDownloadHistory t f tm s =
      saveDownloadHistory
        (s\<lparr>historyList :=
             (if children_length (Line ?i # historyList s) > 10
              then butlast (Line ?i # historyList s) else Line ?i # historyList s)\<rparr>)"
    unfolding addToDownloadHistory_def tmpl by (simp only: option.case Let_def)
  also have "\<dots> = saveDownloadHistory (s\<lparr>historyList := map Line (take ?m ?c)\<rparr>)"
    unfolding nodes ev ..
  also have "\<dots> =
      Done (s\<lparr>historyList := map Line (take ?m ?c), downloadHistory := Some (take ?m (r # rs))\<rparr>)"
    using saved by (simp add: saveDownloadHistory_def)
  finally have "addToDownloadHistory t f tm s =
      Done (s\<lparr>historyList := map Line (take ?m ?c), downloadHistory := Some (take ?m (r # rs))\<rparr>)" .
  with r show ?thesis by blast
qed








text \<open>
  Two runs outside the conditions of the lemmas above. With a text node as the only child
  of the list, the eleventh append removes the text node and eleven lines stay. With the tag \<open><span>\<close> as
  a title, the line is inserted and the save throws: nothing is stored.
\<close>

lemma text_node_keeps_eleven:
  "append_entries sample_entries (blank_page\<lparr>historyList := [Text_node]\<rparr>) =
     Done (blank_page\<lparr>historyList := map Line (map entry_item (rev sample_entries)),
                      downloadHistory := Some (map entry_record (rev sample_entries))\<rparr>) \<and>
   length (map entry_item (rev sample_entries)) = 11"
  by (simp add: addToDownloadHistory_def saveDownloadHistory_def history_template_def
      html_text_def item_record_def opens_tag_def opens_reference_def entry_item_def
      entry_record_def sample_entries_def blank_page_def js_trim_def js_whitespace_def
      bullet_def Let_def)

lemma markup_title_is_not_saved:
  "append_entries [(ascii ''<span>'', ascii ''720p'', ascii ''10:00:00'')] blank_page =
     Threw (blank_page\<lparr>historyList :=
        [Line [[], [], ascii ''720p'' @ [32, bullet, 32] @ ascii ''10:00:00'']]\<rparr>) \<and>
   downloadHistory blank_page = None"
  by (simp add: addToDownloadHistory_def saveDownloadHistory_def history_template_def
      html_text_def item_record_def opens_tag_def opens_reference_def
      blank_page_def js_trim_def js_whitespace_def bullet_def Let_def)

subsection \<open>Runs of the poll loops\<close>

lemma received_append: "received (a @ b) = received a @ received b"
  by (induction a rule: received.induct) auto

lemma requests_append: "requests (a @ b) = requests a @ requests b"
  by (induction a rule: requests.induct) auto

lemma timers_append: "timers (a @ b) = timers a @ timers b"
  by (induction a rule: timers.induct) auto

lemma downloading_events_read:
  "received (downloading_events q ds) = map fst ds"
  "requests (downloading_events q ds) = replicate (length ds) q"
  "timers (downloading_events q ds) = replicate (length ds) (Check_progress, 1000)"
  by (induction ds) (auto simp: downloading_events_def)


lemma downloading_run:
  assumes "\<forall>(st, t) \<in> set ds. status st = ascii ''downloading''"
  shows "\<exists>s1. currentDownloadId s1 = currentDownloadId s \<and>
              currentVideoInfo s1 = currentVideoInfo s \<and>
              selectedFormat s1 = selectedFormat s \<and>
              historyList s1 = historyList s \<and>
              urlError_text s1 = urlError_text s \<and>
              urlError_display s1 = urlError_display s \<and>
              (\<forall>rest. download_checkProgress (map Replied ds @ rest) s =
                 (case download_checkProgress rest s1 of
                    (evs, s2, e) \<Rightarrow>
                      (downloading_events (Download_status (currentDownloadId s)) ds @ evs, s2, e)))"
  using assms
proof (induction ds arbitrary: s)
  case Nil
  show ?case by (rule exI[of _ s]) (simp add: downloading_events_def)
next
  case (Cons d ds)
  obtain st t where d: "d = (st, t)" by (cases d) auto
  with Cons.prems have tag: "status st = ascii ''downloading''" by simp
  let ?s0 = "s\<lparr>progressFill_width := Width_percent_of (percent st),
                  progressText_text := text_content (percent st),
                  downloadSpeed_text := text_content (speed st),
                  fileSize_text :=
                    template_value (downloaded st) @ ascii '' / '' @ template_value (total_size st)\<rparr>"
  have once: "download_check_once (Replied d) s =
      ([Fetch (Download_status (currentDownloadId s)), Status_received st,
        Set_timeout Check_progress 1000], ?s0, Rescheduled)"
    using tag d by (simp add: download_check_once_def)
  from Cons.prems have "\<forall>(st, t) \<in> set ds. status st = ascii ''downloading''" by simp
  from Cons.IH[OF this, of ?s0] obtain s1 where
    s1: "currentDownloadId s1 = currentDownloadId ?s0" "currentVideoInfo s1 = currentVideoInfo ?s0"
      "selectedFormat s1 = selectedFormat ?s0" "historyList s1 = historyList ?s0"
      "urlError_text s1 = urlError_text ?s0" "urlError_display s1 = urlError_display ?s0"
    and run: "\<And>rest. download_checkProgress (map Replied ds @ rest) ?s0 =
                 (case download_checkProgress rest s1 of
                    (evs, s2, e) \<Rightarrow>
                      (downloading_events (Download_status (currentDownloadId ?s0)) ds @ evs, s2, e))"
    by blast
  have "download_checkProgress (map Replied (d # ds) @ rest) s =
          (case download_checkProgress rest s1 of
             (evs, s2, e) \<Rightarrow>
               (downloading_events (Download_status (currentDownloadId s)) (d # ds) @ evs, s2, e))"
    for rest
    using once run[of rest] d
    by (simp add: downloading_events_def split: prod.splits)
  with s1 show ?case by (intro exI[of _ s1]) simp
qed



text \<open>The run of \<open>checkProgress\<close> on a \<open>finished\<close> answer, case by case.\<close>

lemma finished_without_metadata:
  assumes "status fin = ascii ''finished''"
    and "currentVideoInfo s = None \<or> selectedFormat s = None"
  shows "download_check_once (Replied (fin, now)) s =
           ([Fetch (Download_status (currentDownloadId s)), Status_received fin,
             Console_error, Set_timeout Check_progress 2000],
            s\<lparr>progressFill_width := Width_text (ascii ''100%''),
              progressText_text := ascii ''100%'',
              downloadSpeed_text := ascii ''Completed'',
              downloadBtn_disabled := False,
              downloadBtn_innerHTML := label_save_file,
              downloadBtn_onclick := Some Call_downloadFile\<rparr>,
            Rescheduled)"
proof -
  have nd: "status fin \<noteq> ascii ''downloading''" using assms(1) by simp
  from assms(2) show ?thesis
  proof
    assume "currentVideoInfo s = None"
    then show ?thesis using assms(1) nd by (simp add: download_check_once_def Let_def)
  next
    assume n: "selectedFormat s = None"
    show ?thesis
      using assms(1) nd n
      by (cases "currentVideoInfo s") (simp_all add: download_check_once_def Let_def)
  qed
qed

lemma finished_with_metadata:
  assumes "status fin = ascii ''finished''"
    and "currentVideoInfo s = Some info" and "selectedFormat s = Some fm"
  shows "download_check_once (Replied (fin, now)) s =
           (case addToDownloadHistory (title info) (name fm) now
                   (s\<lparr>progressFill_width := Width_text (ascii ''100%''),
                      progressText_text := ascii ''100%'',
                      downloadSpeed_text := ascii ''Completed'',
                      downloadBtn_disabled := False,
                      downloadBtn_innerHTML := label_save_file,
                      downloadBtn_onclick := Some Call_downloadFile\<rparr>) of
              Done s2 \<Rightarrow>
                ([Fetch (Download_status (currentDownloadId s)), Status_received fin], s2,
                 Finished_polling)
            | Threw s2 \<Rightarrow>
                ([Fetch (Download_status (currentDownloadId s)), Status_received fin,
                  Console_error, Set_timeout Check_progress 2000], s2, Rescheduled)
            | Beyond \<Rightarrow>
                ([Fetch (Download_status (currentDownloadId s)), Status_received fin],
                 s\<lparr>progressFill_width := Width_text (ascii ''100%''),
                   progressText_text := ascii ''100%'',
                   downloadSpeed_text := ascii ''Completed'',
                   downloadBtn_disabled := False,
                   downloadBtn_innerHTML := label_save_file,
                   downloadBtn_onclick := Some Call_downloadFile\<rparr>,
                 Unmodelled))"
proof -
  have nd: "status fin \<noteq> ascii ''downloading''" using assms(1) by simp
  show ?thesis
    using assms nd
    by (simp add: download_check_once_def Let_def split: outcome.splits)
qed

text \<open>
  The run on a \<open>finished\<close> answer, whatever the state: the request, the status handled,
  then either nothing more or the diagnostic and the timer of the \<open>catch\<close> block. The job
  identifier, the metadata, the selection and \<open>#urlError\<close> are as before.
\<close>

lemma finished_once_any:
  assumes "status fin = ascii ''finished''"
  shows "\<exists>evs s2 n.
           download_check_once (Replied (fin, now)) s =
             (Fetch (Download_status (currentDownloadId s)) # Status_received fin # evs, s2, n) \<and>
           (n = Rescheduled \<and> evs = [Console_error, Set_timeout Check_progress 2000] \<or>
            n \<noteq> Rescheduled \<and> evs = []) \<and>
           urlError_text s2 = urlError_text s \<and> urlError_display s2 = urlError_display s \<and>
           currentDownloadId s2 = currentDownloadId s \<and>
           currentVideoInfo s2 = currentVideoInfo s \<and> selectedFormat s2 = selectedFormat s"
proof -
  let ?s1 = "s\<lparr>progressFill_width := Width_text (ascii ''100%''),
                progressText_text := ascii ''100%'',
                downloadSpeed_text := ascii ''Completed'',
                downloadBtn_disabled := False,
                downloadBtn_innerHTML := label_save_file,
                downloadBtn_onclick := Some Call_downloadFile\<rparr>"
  show ?thesis
  proof (cases "currentVideoInfo s = None \<or> selectedFormat s = None")
    case True
    from finished_without_metadata[OF assms True, of now] show ?thesis by simp
  next
    case False
    then obtain info fm where m: "currentVideoInfo s = Some info" "selectedFormat s = Some fm"
      by auto
    note once = finished_with_metadata[OF assms m, of now]
    show ?thesis
    proof (cases "addToDownloadHistory (title info) (name fm) now ?s1")
      case Beyond
      with once show ?thesis by simp
    next
      case (Done s2)
      then obtain ns h where "s2 = ?s1\<lparr>historyList := ns, downloadHistory := h\<rparr>"
        using addToDownloadHistory_frame[of "title info" "name fm" now ?s1 s2] by blast
      then have "urlError_text s2 = urlError_text s \<and> urlError_display s2 = urlError_display s \<and>
           currentDownloadId s2 = currentDownloadId s \<and>
           currentVideoInfo s2 = currentVideoInfo s \<and> selectedFormat s2 = selectedFormat s"
        by simp
      with once Done show ?thesis by simp
    next
      case (Threw s2)
      then obtain ns h where "s2 = ?s1\<lparr>historyList := ns, downloadHistory := h\<rparr>"
        using addToDownloadHistory_frame[of "title info" "name fm" now ?s1 s2] by blast
      then have "urlError_text s2 = urlError_text s \<and> urlError_display s2 = urlError_display s \<and>
           currentDownloadId s2 = currentDownloadId s \<and>
           currentVideoInfo s2 = currentVideoInfo s \<and> selectedFormat s2 = selectedFormat s"
        by simp
      with once Threw show ?thesis by simp
    qed
  qed
qed

text \<open>
  No run of \<open>checkProgress\<close> touches the job identifier, the metadata or the selection.
\<close>

lemma download_check_once_frame:
  assumes "download_check_once r s = (evs, s', n)"
  shows "currentDownloadId s' = currentDownloadId s \<and> currentVideoInfo s' = currentVideoInfo s \<and>
         selectedFormat s' = selectedFormat s"
proof (cases r)
  case Failed
  with assms show ?thesis by (simp add: download_check_once_def)
next
  case (Replied p)
  obtain st now where p: "p = (st, now)" by (cases p) auto
  consider (d) "status st = ascii ''downloading''"
    | (f) "status st = ascii ''finished''"
    | (e) "status st \<noteq> ascii ''downloading''" "status st \<noteq> ascii ''finished''"
          "status st = ascii ''error''"
    | (o) "status st \<noteq> ascii ''downloading''" "status st \<noteq> ascii ''finished''"
          "status st \<noteq> ascii ''error''"
    by blast
  then show ?thesis
  proof cases
    case d
    with assms Replied p show ?thesis by (auto simp: download_check_once_def)
  next
    case e
    with assms Replied p show ?thesis by (auto simp: download_check_once_def showError_def)
  next
    case o
    with assms Replied p show ?thesis by (auto simp: download_check_once_def)
  next
    case f
    from finished_once_any[OF f, of now s] assms Replied p show ?thesis by auto
  qed
qed

lemma download_checkProgress_frame:
  "download_checkProgress rs s = (evs, s', e) \<Longrightarrow>
   currentDownloadId s' = currentDownloadId s \<and> currentVideoInfo s' = currentVideoInfo s \<and>
   selectedFormat s' = selectedFormat s"
proof (induction rs arbitrary: s evs s' e)
  case Nil
  then show ?case by simp
next
  case (Cons r rs)
  obtain ev1 s1 n where once: "download_check_once r s = (ev1, s1, n)"
    by (cases "download_check_once r s") auto
  note fr = download_check_once_frame[OF once]
  show ?case
  proof (cases n)
    case Rescheduled
    obtain ev2 s2 e2 where rest: "download_checkProgress rs s1 = (ev2, s2, e2)"
      by (cases "download_checkProgress rs s1") auto
    from Cons.prems once Rescheduled rest have "s' = s2" by simp
    with Cons.IH[OF rest] fr show ?thesis by simp
  next
    case Finished_polling
    with Cons.prems once have "s' = s1" by simp
    with fr show ?thesis by simp
  next
    case Unmodelled
    with Cons.prems once have "s' = s1" by simp
    with fr show ?thesis by simp
  qed
qed


text \<open>The timer of 1000 ms is set on \<open>downloading\<close> and on nothing else.\<close>

lemma steady_timer_only_on_downloading:
  "(Check_progress, 1000) \<in> set (timers (fst (download_check_once r s))) \<longleftrightarrow>
   (\<exists>st now. r = Replied (st, now) \<and> status st = ascii ''downloading'')"
proof (cases r)
  case Failed
  then show ?thesis by (simp add: download_check_once_def)
next
  case (Replied p)
  obtain st now where p: "p = (st, now)" by (cases p) auto
  consider (d) "status st = ascii ''downloading''"
    | (f) "status st = ascii ''finished''"
    | (e) "status st \<noteq> ascii ''downloading''" "status st \<noteq> ascii ''finished''"
          "status st = ascii ''error''"
    | (o) "status st \<noteq> ascii ''downloading''" "status st \<noteq> ascii ''finished''"
          "status st \<noteq> ascii ''error''"
    by blast
  then show ?thesis
  proof cases
    case d
    with Replied p show ?thesis by (simp add: download_check_once_def)
  next
    case e
    with Replied p show ?thesis by (simp add: download_check_once_def showError_def)
  next
    case o
    with Replied p show ?thesis by (simp add: download_check_once_def)
  next
    case f
    then have nd: "status st \<noteq> ascii ''downloading''" by simp
    from finished_once_any[OF f, of now s] obtain evs s2 n where
      "download_check_once (Replied (st, now)) s =
         (Fetch (Download_status (currentDownloadId s)) # Status_received st # evs, s2, n)"
      "evs = [Console_error, Set_timeout Check_progress 2000] \<or> evs = []"
      by blast
    then have "(Check_progress, 1000) \<notin> set (timers (fst (download_check_once r s)))"
      using Replied p by auto
    with nd Replied p show ?thesis by simp
  qed
qed

text \<open>
  A run of \<open>startDownload\<close> that creates a job leaves the metadata and the selection as
  they were, with the identifier of the new job.
\<close>

lemma startDownload_frame:
  assumes "selectedFormat s = Some f" and "currentVideoInfo s = Some info"
    and "startDownload (Ok_body download_id) rs s = (evs, s', e)"
  shows "currentDownloadId s' = download_id \<and> currentVideoInfo s' = Some info \<and>
         selectedFormat s' = Some f \<and>
         hd evs = Fetch (Start_download (js_trim (urlInput_value s)) (format_id f) (title info))"
proof -
  let ?s1 = "s\<lparr>downloadBtn_disabled := True, downloadBtn_innerHTML := label_starting,
               currentDownloadId := download_id\<rparr>"
  obtain evs1 s2 e1 where m: "monitorDownloadProgress rs ?s1 = (evs1, s2, e1)"
    by (cases "monitorDownloadProgress rs ?s1") auto
  from assms m have r: "evs = Fetch (Start_download (js_trim (urlInput_value s)) (format_id f) (title info)) # evs1"
    "s' = s2"
    by (simp_all add: startDownload_def Let_def)
  have "currentDownloadId s2 = download_id \<and> currentVideoInfo s2 = Some info \<and>
        selectedFormat s2 = Some f"
  proof (cases "truthy download_id")
    case False
    with m assms(1,2) show ?thesis by (auto simp: monitorDownloadProgress_def)
  next
    case True
    with m have "download_checkProgress rs ?s1 = (evs1, s2, e1)"
      by (simp add: monitorDownloadProgress_def)
    from download_checkProgress_frame[OF this] assms(1,2) show ?thesis by simp
  qed
  with r show ?thesis by simp
qed

text \<open>
  On literal text the loop does end at \<open>finished\<close>. With a job running, a title, a format
  name and a clock reading that the template takes literally, and a list of readable lines:
  after \<open>N\<close> answers \<open>downloading\<close> and one \<open>finished\<close> the handler has run \<open>N + 1\<close> times,
  on those statuses in that order, \<open>N + 1\<close> requests were issued, and the loop has halted
  whatever answers remain.
\<close>

lemma downloading_then_finished_literal:
  assumes "truthy (currentDownloadId s)"
    and "currentVideoInfo s = Some info" and "selectedFormat s = Some f"
    and "literal 60 (title info)" and "literal 32 (name f)" and "literal 60 now"
    and "historyList s = map Line items" and "map_records items = Some rs"
    and "list_all (\<lambda>(st, t). status st = ascii ''downloading'') ds"
    and "status fin = ascii ''finished''"
  shows "\<exists>evs s'.
           monitorDownloadProgress (map Replied ds @ [Replied (fin, now)] @ rest) s = (evs, s', Halted) \<and>
           evs = downloading_events (Download_status (currentDownloadId s)) ds @
                 [Fetch (Download_status (currentDownloadId s)), Status_received fin] \<and>
           received evs = map fst ds @ [fin] \<and>
           requests evs = replicate (length ds + 1) (Download_status (currentDownloadId s)) \<and>
           timers evs = replicate (length ds) (Check_progress, 1000)"
proof -
  let ?q = "Download_status (currentDownloadId s)"
  from assms(9) have all: "\<forall>(st, t) \<in> set ds. status st = ascii ''downloading''"
    by (simp add: list_all_iff)
  from downloading_run[OF all, of s] obtain s1 where
    s1: "currentDownloadId s1 = currentDownloadId s" "currentVideoInfo s1 = currentVideoInfo s"
      "selectedFormat s1 = selectedFormat s" "historyList s1 = historyList s"
    and run: "\<And>rest. download_checkProgress (map Replied ds @ rest) s =
                 (case download_checkProgress rest s1 of
                    (evs, s2, e) \<Rightarrow> (downloading_events ?q ds @ evs, s2, e))"
    by blast
  let ?s1 = "s1\<lparr>progressFill_width := Width_text (ascii ''100%''),
                progressText_text := ascii ''100%'',
                downloadSpeed_text := ascii ''Completed'',
                downloadBtn_disabled := False,
                downloadBtn_innerHTML := label_save_file,
                downloadBtn_onclick := Some Call_downloadFile\<rparr>"
  have hl: "historyList ?s1 = map Line items" using s1(4) assms(7) by simp
  from addToDownloadHistory_done[OF assms(4,5,6) hl assms(8)] obtain s2 where
    d: "addToDownloadHistory (title info) (name f) now ?s1 = Done s2"
    by blast
  have i1: "currentVideoInfo s1 = Some info" and f1: "selectedFormat s1 = Some f"
    using s1 assms(2,3) by simp_all
  have fin: "download_check_once (Replied (fin, now)) s1 =
            ([Fetch ?q, Status_received fin], s2, Finished_polling)"
    using finished_with_metadata[OF assms(10) i1 f1, of now] d s1(1) by simp
  have "monitorDownloadProgress (map Replied ds @ [Replied (fin, now)] @ rest) s =
          (downloading_events ?q ds @ [Fetch ?q, Status_received fin], s2, Halted)"
    using assms(1) run[of "[Replied (fin, now)] @ rest"] fin
    by (simp add: monitorDownloadProgress_def)
  then show ?thesis
    by (simp add: received_append requests_append timers_append downloading_events_read
        replicate_append_same)
qed

section \<open>The claims\<close>

subsection \<open>The single-job poll loop\<close>

text \<open>
  C1. The loop is written to end at \<open>finished\<close>: that branch sets no timer. It misses
  this when the history line cannot be saved, because the save runs inside the \<open>try\<close>
  block whose \<open>catch\<close> reschedules. A download is running for a video whose title is the
  tag \<open><span>\<close>. After two answers \<open>downloading\<close> and one \<open>finished\<close>, the history line
  is inserted with an extra empty span, \<open>saveDownloadHistory\<close> throws on it, the \<open>catch\<close>
  block logs and sets the timer of 2000 ms, and one more status request is issued after
  \<open>finished\<close>. When that request is answered \<open>finished\<close> again, the handler runs a fourth
  time, where the claim counts three runs.
\<close>

theorem finished_with_markup_title_polls_again:
  "monitorDownloadProgress
     (map Replied sample_polls @ [Replied (status_only (ascii ''finished''), ascii ''10:00:02'')])
     markup_state =
     (downloading_events (Download_status (Some (ascii ''job1''))) sample_polls @
      [Fetch (Download_status (Some (ascii ''job1''))),
       Status_received (status_only (ascii ''finished'')),
       Console_error,
       Set_timeout Check_progress 2000,
       Fetch (Download_status (Some (ascii ''job1'')))],
      markup_state
        \<lparr>historyList := [Line [[], [], ascii ''720p'' @ [32, bullet, 32] @ ascii ''10:00:02'']],
         downloadBtn_disabled := False,
         downloadBtn_innerHTML := label_save_file,
         downloadBtn_onclick := Some Call_downloadFile,
         progressFill_width := Width_text (ascii ''100%''),
         progressText_text := ascii ''100%'',
         downloadSpeed_text := ascii ''Completed'',
         fileSize_text := ascii ''3.7MiB / 10MiB''\<rparr>,
      In_flight) \<and>
   received (fst (monitorDownloadProgress
     (map Replied sample_polls @
      [Replied (status_only (ascii ''finished''), ascii ''10:00:02''),
       Replied (status_only (ascii ''finished''), ascii ''10:00:04'')])
     markup_state)) =
     [sample_downloading, sample_downloading,
      status_only (ascii ''finished''), status_only (ascii ''finished'')]"
  by (simp add: monitorDownloadProgress_def download_check_once_def addToDownloadHistory_def
      saveDownloadHistory_def history_template_def html_text_def item_record_def
      opens_tag_def opens_reference_def
      markup_state_def sample_state_def blank_page_def sample_info_def sample_format_def
      sample_polls_def sample_downloading_def status_only_def downloading_events_def
      text_content_def template_value_def bullet_def Let_def)



text \<open>
  C3. The claim fails: with \<open>pending\<close> as the first answer, the loop sets no timer and
  ends, and the answer after it is never asked for.
\<close>

theorem pending_stops_polling:
  "monitorDownloadProgress
     [Replied (status_only (ascii ''pending''), ascii ''10:00:00''),
      Replied (status_only (ascii ''finished''), ascii ''10:00:01'')] sample_state =
   ([Fetch (Download_status (Some (ascii ''job1''))),
     Status_received (status_only (ascii ''pending''))],
    sample_state, Halted)"
  by (simp add: monitorDownloadProgress_def download_check_once_def status_only_def
      sample_state_def blank_page_def)

text \<open>
  C3, amended. In the single-job poll loop a fetched status whose tag is none of
  \<open>downloading\<close>, \<open>finished\<close>, \<open>error\<close> (\<open>pending\<close>, for one) reaches the handler, which
  has no branch for it: the page is unchanged, no timer is set and the loop ends. On
  \<open>downloading\<close> the loop sets one timer, of 1000 ms, and goes on polling. One run of
  \<open>checkProgress\<close> sets the timer of 1000 ms exactly when the fetch succeeded with the
  status \<open>downloading\<close>.
\<close>

theorem download_unhandled_status_halts:
  assumes "truthy (currentDownloadId s)"
  shows
  "(status st \<noteq> ascii ''downloading'' \<and> status st \<noteq> ascii ''finished'' \<and>
    status st \<noteq> ascii ''error'' \<longrightarrow>
      monitorDownloadProgress (Replied (st, now) # rest) s =
        ([Fetch (Download_status (currentDownloadId s)), Status_received st], s, Halted)) \<and>
   (status st = ascii ''downloading'' \<longrightarrow>
      timers (fst (monitorDownloadProgress [Replied (st, now)] s)) = [(Check_progress, 1000)] \<and>
      snd (snd (monitorDownloadProgress [Replied (st, now)] s)) = In_flight) \<and>
   ((Check_progress, 1000) \<in> set (timers (fst (download_check_once r s))) \<longleftrightarrow>
      (\<exists>st' now'. r = Replied (st', now') \<and> status st' = ascii ''downloading''))"
proof -
  have a: "status st \<noteq> ascii ''downloading'' \<and> status st \<noteq> ascii ''finished'' \<and>
    status st \<noteq> ascii ''error'' \<longrightarrow>
      monitorDownloadProgress (Replied (st, now) # rest) s =
        ([Fetch (Download_status (currentDownloadId s)), Status_received st], s, Halted)"
    using assms by (simp add: monitorDownloadProgress_def download_check_once_def)
  have b: "status st = ascii ''downloading'' \<longrightarrow>
      timers (fst (monitorDownloadProgress [Replied (st, now)] s)) = [(Check_progress, 1000)] \<and>
      snd (snd (monitorDownloadProgress [Replied (st, now)] s)) = In_flight"
    using assms by (simp add: monitorDownloadProgress_def download_check_once_def)
  from a b steady_timer_only_on_downloading[of r s] show ?thesis by blast
qed

theorem download_unhandled_status_halts_witness:
  "truthy (currentDownloadId sample_state) \<and>
   status (status_only (ascii ''pending'')) \<noteq> ascii ''downloading'' \<and>
   status (status_only (ascii ''pending'')) \<noteq> ascii ''finished'' \<and>
   status (status_only (ascii ''pending'')) \<noteq> ascii ''error'' \<and>
   monitorDownloadProgress [Replied (status_only (ascii ''pending''), ascii ''10:00:00'')] sample_state =
     ([Fetch (Download_status (currentDownloadId sample_state)),
       Status_received (status_only (ascii ''pending''))], sample_state, Halted) \<and>
   status (status_only (ascii ''downloading'')) = ascii ''downloading'' \<and>
   timers (fst (monitorDownloadProgress
       [Replied (status_only (ascii ''downloading''), ascii ''10:00:00'')] sample_state)) =
     [(Check_progress, 1000)] \<and>
   snd (snd (monitorDownloadProgress
       [Replied (status_only (ascii ''downloading''), ascii ''10:00:00'')] sample_state)) = In_flight \<and>
   (Check_progress, 1000) \<notin> set (timers (fst (download_check_once
       (Replied (status_only (ascii ''pending''), ascii ''10:00:00'')) sample_state)))"
proof -
  have a: "truthy (currentDownloadId sample_state)"
    by (simp add: sample_state_def blank_page_def)
  have b: "status (status_only (ascii ''pending'')) \<noteq> ascii ''downloading'' \<and>
           status (status_only (ascii ''pending'')) \<noteq> ascii ''finished'' \<and>
           status (status_only (ascii ''pending'')) \<noteq> ascii ''error''"
    by (simp add: status_only_def)
  have c: "status (status_only (ascii ''downloading'')) = ascii ''downloading''"
    by (simp add: status_only_def)
  note p = download_unhandled_status_halts [OF a, of "status_only (ascii ''pending'')" "ascii ''10:00:00''" "[]"
      "Replied (status_only (ascii ''pending''), ascii ''10:00:00'')"]
  note d = download_unhandled_status_halts [OF a, of "status_only (ascii ''downloading'')" "ascii ''10:00:00''"]
  from p b have p3: "(Check_progress, 1000) \<notin> set (timers (fst (download_check_once
       (Replied (status_only (ascii ''pending''), ascii ''10:00:00'')) sample_state)))"
    by auto
  from a b c p d p3 show ?thesis by blast
qed

text \<open>
  C4. The claim fails in one part: after the status \<open>error\<close> the job identifier is
  still there.
\<close>

theorem error_keeps_job_identifier:
  "currentDownloadId (fst (snd (monitorDownloadProgress
      [Replied (sample_error, ascii ''10:00:00'')]
      sample_state))) = Some (ascii ''job1'')"
  by (simp add: monitorDownloadProgress_def download_check_once_def status_only_def sample_error_def
      sample_state_def blank_page_def showError_def)

text \<open>
  C4, amended. When the single-job poll loop observes the status \<open>error\<close>, it shows the
  message of the status in \<open>#urlError\<close>, enables the download button again under its
  label for a new attempt, and ends. Nothing else changes: the job identifier, the format
  selection and the metadata are all retained.
\<close>

theorem download_error_status:
  assumes "truthy (currentDownloadId s)" and "status st = ascii ''error''"
  shows "monitorDownloadProgress (Replied (st, now) # rest) s =
           ([Fetch (Download_status (currentDownloadId s)), Status_received st,
             Set_timeout Hide_error 5000],
            s\<lparr>urlError_text := cross (template_value (error st)),
              urlError_display := Display_block,
              downloadBtn_disabled := False,
              downloadBtn_innerHTML := label_download_now\<rparr>,
            Halted)"
  using assms
  by (simp add: monitorDownloadProgress_def download_check_once_def showError_def)

theorem download_error_status_witness:
  "truthy (currentDownloadId sample_state) \<and>
   status sample_error = ascii ''error'' \<and>
   monitorDownloadProgress [Replied (sample_error, ascii ''10:00:00'')] sample_state =
     ([Fetch (Download_status (currentDownloadId sample_state)),
       Status_received sample_error,
       Set_timeout Hide_error 5000],
      sample_state\<lparr>urlError_text := cross (template_value (error sample_error)),
        urlError_display := Display_block,
        downloadBtn_disabled := False,
        downloadBtn_innerHTML := label_download_now\<rparr>,
      Halted)"
proof -
  have a: "truthy (currentDownloadId sample_state)"
    by (simp add: sample_state_def blank_page_def)
  have b: "status sample_error = ascii ''error''" by (simp add: sample_error_def status_only_def)
  show ?thesis
    using a b download_error_status [OF a b, of "ascii ''10:00:00''" "[]"] by blast
qed

subsection \<open>Metadata and selection\<close>

text \<open>
  C5. The claim fails in one part: a format selected from an earlier result is still the
  selected format after the next successful metadata fetch, although the new result does
  not offer it.
\<close>

theorem stale_selection_survives_fetch:
  "selectedFormat (snd (fetchVideoInfo (Ok_body other_info)
      (click_format_item 0 (snd (fetchVideoInfo (Ok_body sample_info)
         (blank_page\<lparr>urlInput_value := ascii ''https://example.com/v''\<rparr>)))))) = Some sample_format \<and>
   sample_format \<notin> set (formats other_info)"
  by (simp add: fetchVideoInfo_def click_format_item_def displayFormats_def displayVideoInfo_def
      blank_page_def other_info_def sample_info_def sample_format_def sample_audio_def js_trim_def
      js_whitespace_def Let_def)

text \<open>
  C5, amended. On every successful metadata fetch (the URL field is not blank) exactly one
  request is issued, the current metadata is replaced wholesale by the returned data, and
  the format grid is rebuilt from the returned formats with no item marked as selected.
  The field \<open>selectedFormat\<close> is not touched: it keeps the format chosen before.
\<close>

theorem fetchVideoInfo_replaces_metadata:
  assumes "js_trim (urlInput_value s) \<noteq> []"
  shows "\<exists>s'. fetchVideoInfo (Ok_body data) s = ([Fetch (Get_info (js_trim (urlInput_value s)))], s') \<and>
           currentVideoInfo s' = Some data \<and>
           formatGrid s' = map (\<lambda>f. \<lparr>item_format = f, selected = False\<rparr>) (formats data) \<and>
           videoTitle_text s' = title data \<and>
           selectedFormat s' = selectedFormat s"
  using assms
  by (simp add: fetchVideoInfo_def displayFormats_def displayVideoInfo_def Let_def)

theorem fetchVideoInfo_replaces_metadata_witness:
  "js_trim (urlInput_value sample_state) \<noteq> [] \<and>
   (\<exists>s'. fetchVideoInfo (Ok_body other_info) sample_state =
            ([Fetch (Get_info (js_trim (urlInput_value sample_state)))], s') \<and>
          currentVideoInfo s' = Some other_info \<and>
          formatGrid s' = map (\<lambda>f. \<lparr>item_format = f, selected = False\<rparr>) (formats other_info) \<and>
          videoTitle_text s' = title other_info \<and>
          selectedFormat s' = selectedFormat sample_state)"
proof -
  have a: "js_trim (urlInput_value sample_state) \<noteq> []"
    by (simp add: sample_state_def blank_page_def js_trim_def js_whitespace_def)
  from a fetchVideoInfo_replaces_metadata [OF a, of other_info] show ?thesis by blast
qed

subsection \<open>Starting a download\<close>

text \<open>
  C6. When \<open>startDownload\<close> runs with no format selected or no metadata present, it
  issues no request at all and shows the local validation error. Whenever a run of
  \<open>startDownload\<close> issues a request, a format is selected and metadata is present, and
  the first request is the job creation for that format and that title.
\<close>

theorem startDownload_needs_format_and_metadata:
  "(selectedFormat s = None \<or> currentVideoInfo s = None \<longrightarrow>
      startDownload r rs s =
        ([Set_timeout Hide_error 5000],
         s\<lparr>urlError_text := cross (ascii ''Please select a format first''),
           urlError_display := Display_block\<rparr>,
         Halted)) \<and>
   (requests (fst (startDownload r rs s)) \<noteq> [] \<longrightarrow>
      (\<exists>f info. selectedFormat s = Some f \<and> currentVideoInfo s = Some info \<and>
         hd (requests (fst (startDownload r rs s))) =
           Start_download (js_trim (urlInput_value s)) (format_id f) (title info)))"
proof (intro conjI impI)
  assume "selectedFormat s = None \<or> currentVideoInfo s = None"
  then show "startDownload r rs s =
        ([Set_timeout Hide_error 5000],
         s\<lparr>urlError_text := cross (ascii ''Please select a format first''),
           urlError_display := Display_block\<rparr>,
         Halted)"
    by (auto simp: startDownload_def showError_def split: option.splits)
next
  assume q: "requests (fst (startDownload r rs s)) \<noteq> []"
  show "\<exists>f info. selectedFormat s = Some f \<and> currentVideoInfo s = Some info \<and>
         hd (requests (fst (startDownload r rs s))) =
           Start_download (js_trim (urlInput_value s)) (format_id f) (title info)"
  proof (cases "selectedFormat s")
    case None
    with q show ?thesis by (simp add: startDownload_def showError_def)
  next
    case f: (Some f)
    show ?thesis
    proof (cases "currentVideoInfo s")
      case None
      with q f show ?thesis by (simp add: startDownload_def showError_def)
    next
      case (Some info)
      with f show ?thesis
        by (cases r) (simp_all add: startDownload_def showError_def Let_def split: prod.splits)
    qed
  qed
qed

theorem startDownload_needs_format_and_metadata_witness:
  "(selectedFormat blank_page = None \<or> currentVideoInfo blank_page = None) \<and>
   startDownload (Ok_body (Some (ascii ''job1''))) [] blank_page =
     ([Set_timeout Hide_error 5000],
      blank_page\<lparr>urlError_text := cross (ascii ''Please select a format first''),
                 urlError_display := Display_block\<rparr>,
      Halted) \<and>
   requests (fst (startDownload (Ok_body (Some (ascii ''job1''))) [] sample_state)) \<noteq> [] \<and>
   (\<exists>f info. selectedFormat sample_state = Some f \<and> currentVideoInfo sample_state = Some info \<and>
      hd (requests (fst (startDownload (Ok_body (Some (ascii ''job1''))) [] sample_state))) =
        Start_download (js_trim (urlInput_value sample_state)) (format_id f) (title info))"
proof -
  have a: "selectedFormat blank_page = None \<or> currentVideoInfo blank_page = None"
    by (simp add: blank_page_def)
  have b: "requests (fst (startDownload (Ok_body (Some (ascii ''job1''))) [] sample_state)) \<noteq> []"
    by (simp add: startDownload_def sample_state_def blank_page_def
        monitorDownloadProgress_def Let_def)
  show ?thesis
    using a b
      startDownload_needs_format_and_metadata
        [of blank_page "Ok_body (Some (ascii ''job1''))" "[]"]
      startDownload_needs_format_and_metadata
        [of sample_state "Ok_body (Some (ascii ''job1''))" "[]"]
    by blast
qed

subsection \<open>Retrieving the file\<close>

text \<open>
  C7. The claim fails in one part: the file is not named after the title of the job. A job
  is created for the video \<open>Clip\<close>; another video is looked up while the job runs; the
  file of the job is then saved as \<open>Song.mp4\<close>.
\<close>

theorem saved_under_another_title:
  "hd (fst (startDownload (Ok_body (Some (ascii ''job1'')))
        [Replied (status_only (ascii ''finished''), ascii ''10:00:02'')]
        (sample_state\<lparr>currentDownloadId := None\<rparr>))) =
     Fetch (Start_download (ascii ''https://example.com/v'') (ascii ''22'') (ascii ''Clip'')) \<and>
   fst (downloadFile (Ok_body ())
     (snd (fetchVideoInfo (Ok_body other_info)
       (fst (snd (startDownload (Ok_body (Some (ascii ''job1'')))
          [Replied (status_only (ascii ''finished''), ascii ''10:00:02'')]
          (sample_state\<lparr>currentDownloadId := None\<rparr>))))))) =
     [Fetch (Download_file (Some (ascii ''job1''))), Save_as (ascii ''Song.mp4'')]"
  by (simp add: startDownload_def monitorDownloadProgress_def download_check_once_def
      addToDownloadHistory_def saveDownloadHistory_def history_template_def html_text_def
      item_record_def opens_tag_def opens_reference_def fetchVideoInfo_def displayFormats_def
      displayVideoInfo_def downloadFile_def resetDownloadUI_def
      sample_state_def blank_page_def sample_info_def other_info_def sample_format_def
      sample_audio_def status_only_def js_trim_def js_whitespace_def bullet_def Let_def)

text \<open>
  C7, amended. Let a job identifier be held, with metadata and a selected format. When the
  artifact is retrieved, \<open>downloadFile\<close> saves it under the title of the metadata that is
  current at that moment, followed by a dot and the extension of the selected format, and
  resets the page: the job identifier is discarded, the progress bar is set to zero width,
  the progress section and the button are hidden. When the retrieval fails, by a response
  outside 2xx or by a rejected fetch, the error is shown and nothing else changes: the job
  identifier stays. The title is the one the job was created with when nothing but the
  poll loop has run between \<open>startDownload\<close> and \<open>downloadFile\<close>.
\<close>

theorem downloadFile_saves_and_resets:
  assumes "truthy (currentDownloadId s)"
    and "currentVideoInfo s = Some info" and "selectedFormat s = Some f"
  shows "downloadFile (Ok_body ()) s =
           ([Fetch (Download_file (currentDownloadId s)), Save_as (title info @ [46] @ ext f)],
            s\<lparr>progressSection_display := Display_none,
              downloadBtn_display := Display_none,
              progressFill_width := Width_text (ascii ''0%''),
              currentDownloadId := None\<rparr>) \<and>
         downloadFile (Not_ok e) s =
           ([Fetch (Download_file (currentDownloadId s)), Set_timeout Hide_error 5000],
            s\<lparr>urlError_text := cross (ascii ''Failed to download file''),
              urlError_display := Display_block\<rparr>) \<and>
         downloadFile (Rejected m) s =
           ([Fetch (Download_file (currentDownloadId s)), Set_timeout Hide_error 5000],
            s\<lparr>urlError_text := cross m, urlError_display := Display_block\<rparr>) \<and>
         (currentVideoInfo s0 = Some info0 \<and> selectedFormat s0 = Some f0 \<and> truthy download_id \<and>
          startDownload (Ok_body download_id) rs s0 = (evs, s1, e1) \<longrightarrow>
            hd evs =
              Fetch (Start_download (js_trim (urlInput_value s0)) (format_id f0) (title info0)) \<and>
            downloadFile (Ok_body ()) s1 =
              ([Fetch (Download_file download_id), Save_as (title info0 @ [46] @ ext f0)],
               resetDownloadUI s1))"
proof -
  have a: "downloadFile (Ok_body ()) s =
           ([Fetch (Download_file (currentDownloadId s)), Save_as (title info @ [46] @ ext f)],
            s\<lparr>progressSection_display := Display_none,
              downloadBtn_display := Display_none,
              progressFill_width := Width_text (ascii ''0%''),
              currentDownloadId := None\<rparr>) \<and>
         downloadFile (Not_ok e) s =
           ([Fetch (Download_file (currentDownloadId s)), Set_timeout Hide_error 5000],
            s\<lparr>urlError_text := cross (ascii ''Failed to download file''),
              urlError_display := Display_block\<rparr>) \<and>
         downloadFile (Rejected m) s =
           ([Fetch (Download_file (currentDownloadId s)), Set_timeout Hide_error 5000],
            s\<lparr>urlError_text := cross m, urlError_display := Display_block\<rparr>)"
    using assms by (simp add: downloadFile_def resetDownloadUI_def showError_def)
  have b: "hd evs =
             Fetch (Start_download (js_trim (urlInput_value s0)) (format_id f0) (title info0)) \<and>
           downloadFile (Ok_body ()) s1 =
             ([Fetch (Download_file download_id), Save_as (title info0 @ [46] @ ext f0)],
              resetDownloadUI s1)"
    if h: "currentVideoInfo s0 = Some info0 \<and> selectedFormat s0 = Some f0 \<and> truthy download_id \<and>
           startDownload (Ok_body download_id) rs s0 = (evs, s1, e1)"
  proof -
    from h have i: "currentVideoInfo s0 = Some info0" and g: "selectedFormat s0 = Some f0"
      and t: "truthy download_id"
      and run: "startDownload (Ok_body download_id) rs s0 = (evs, s1, e1)"
      by simp_all
    from startDownload_frame[OF g i run]
    have fr: "currentDownloadId s1 = download_id" "currentVideoInfo s1 = Some info0"
      "selectedFormat s1 = Some f0"
      and first: "hd evs =
        Fetch (Start_download (js_trim (urlInput_value s0)) (format_id f0) (title info0))"
      by simp_all
    from fr t have "downloadFile (Ok_body ()) s1 =
             ([Fetch (Download_file download_id), Save_as (title info0 @ [46] @ ext f0)],
              resetDownloadUI s1)"
      by (simp add: downloadFile_def)
    with first show ?thesis by simp
  qed
  from a b show ?thesis by blast
qed

theorem downloadFile_saves_and_resets_witness:
  "truthy (currentDownloadId sample_state) \<and>
   currentVideoInfo sample_state = Some sample_info \<and>
   selectedFormat sample_state = Some sample_format \<and>
   downloadFile (Ok_body ()) sample_state =
     ([Fetch (Download_file (currentDownloadId sample_state)),
       Save_as (title sample_info @ [46] @ ext sample_format)],
      sample_state\<lparr>progressSection_display := Display_none,
        downloadBtn_display := Display_none,
        progressFill_width := Width_text (ascii ''0%''),
        currentDownloadId := None\<rparr>) \<and>
   downloadFile (Not_ok None) sample_state =
     ([Fetch (Download_file (currentDownloadId sample_state)), Set_timeout Hide_error 5000],
      sample_state\<lparr>urlError_text := cross (ascii ''Failed to download file''),
        urlError_display := Display_block\<rparr>) \<and>
   downloadFile (Rejected (ascii ''Failed to fetch'')) sample_state =
     ([Fetch (Download_file (currentDownloadId sample_state)), Set_timeout Hide_error 5000],
      sample_state\<lparr>urlError_text := cross (ascii ''Failed to fetch''),
        urlError_display := Display_block\<rparr>) \<and>
   truthy (Some (ascii ''job2'')) \<and>
   hd (fst (startDownload (Ok_body (Some (ascii ''job2'')))
        [Replied (status_only (ascii ''finished''), ascii ''10:00:02'')] sample_state)) =
     Fetch (Start_download (js_trim (urlInput_value sample_state)) (format_id sample_format)
        (title sample_info)) \<and>
   downloadFile (Ok_body ())
     (fst (snd (startDownload (Ok_body (Some (ascii ''job2'')))
        [Replied (status_only (ascii ''finished''), ascii ''10:00:02'')] sample_state))) =
     ([Fetch (Download_file (Some (ascii ''job2''))),
       Save_as (title sample_info @ [46] @ ext sample_format)],
      resetDownloadUI
        (fst (snd (startDownload (Ok_body (Some (ascii ''job2'')))
           [Replied (status_only (ascii ''finished''), ascii ''10:00:02'')] sample_state))))"
proof -
  have h1: "truthy (currentDownloadId sample_state)"
    by (simp add: sample_state_def blank_page_def)
  have h2: "currentVideoInfo sample_state = Some sample_info"
    by (simp add: sample_state_def blank_page_def)
  have h3: "selectedFormat sample_state = Some sample_format"
    by (simp add: sample_state_def blank_page_def)
  have h4: "truthy (Some (ascii ''job2''))" by simp
  let ?run = "startDownload (Ok_body (Some (ascii ''job2'')))
        [Replied (status_only (ascii ''finished''), ascii ''10:00:02'')] sample_state"
  have h5: "?run = (fst ?run, fst (snd ?run), snd (snd ?run))" by simp
  note c = downloadFile_saves_and_resets [OF h1 h2 h3, of None "ascii ''Failed to fetch''"
      sample_state sample_info sample_format "Some (ascii ''job2'')"
      "[Replied (status_only (ascii ''finished''), ascii ''10:00:02'')]"
      "fst ?run" "fst (snd ?run)" "snd (snd ?run)"]
  from h1 h2 h3 h4 h5 c show ?thesis by blast
qed

subsection \<open>The history store\<close>




subsection \<open>The batch poll loop\<close>

text \<open>
  C9. The claim fails at a tie: for 23 of 40 the exact value is 57.5, which rounds to 58,
  but the double product \<open>(23 / 40) * 100\<close> falls just below 57.5 and the page shows 57.
\<close>

theorem tie_renders_one_less:
  "monitorBatchProgress (Some (ascii ''b1'')) 40
     [Replied (sample_processing\<lparr>completed := Some 23\<rparr>)] blank_page =
     ([Fetch (Download_status (Some (ascii ''b1''))),
       Status_received (sample_processing\<lparr>completed := Some 23\<rparr>),
       Set_timeout Check_progress 2000, Fetch (Download_status (Some (ascii ''b1'')))],
      blank_page\<lparr>batchProgress_content := Batch_bar 23 40 (Percent 57)\<rparr>, In_flight) \<and>
   Math_round (23 / 40 * 100) = 58"
proof -
  have p: "progress_percent 23 40 = Percent 57"
    using tie_23_40 by (simp add: progress_percent_def)
  have "\<lfloor>(58 :: rat)\<rfloor> = 58" by simp
  then have r: "Math_round (23 / 40 * 100) = 58" by (simp add: Math_round_def)
  have "monitorBatchProgress (Some (ascii ''b1'')) 40
     [Replied (sample_processing\<lparr>completed := Some 23\<rparr>)] blank_page =
     ([Fetch (Download_status (Some (ascii ''b1''))),
       Status_received (sample_processing\<lparr>completed := Some 23\<rparr>),
       Set_timeout Check_progress 2000, Fetch (Download_status (Some (ascii ''b1'')))],
      blank_page\<lparr>batchProgress_content := Batch_bar 23 40 (progress_percent 23 40)\<rparr>, In_flight)"
    by (simp add: monitorBatchProgress_def batch_check_once_def sample_processing_def
        status_only_def Let_def)
  with p r show ?thesis by simp
qed

text \<open>
  C9, amended. In the batch poll loop, a \<open>processing\<close> status with completed count
  \<open>c < 2 ^ 44\<close> and a total \<open>0 < t < 2 ^ 53\<close> fixed at submission renders \<open>c\<close>, \<open>t\<close> and a
  percentage, and the loop goes on polling after 2000 ms. The percentage is
  \<open>round (c / t * 100)\<close>, a tie going up, whenever \<open>100 c / t\<close> is not halfway between two
  integers; at such a tie it is that value or one less. A status without the field
  \<open>completed\<close> renders as \<open>c = 0\<close> with 0 percent. For 3 of 7 the percentage is 43.
\<close>

theorem batch_processing_percentage:
  assumes "status st = ascii ''processing''" and "0 < total_n" and "total_n < 2 ^ 53"
  shows "(completed st = Some c \<and> c < 2 ^ 44 \<longrightarrow>
            (\<exists>p. monitorBatchProgress b total_n [Replied st] s =
                    ([Fetch (Download_status b), Status_received st,
                      Set_timeout Check_progress 2000, Fetch (Download_status b)],
                     s\<lparr>batchProgress_content := Batch_bar c total_n (Percent p)\<rparr>,
                     In_flight) \<and>
                  ((200 * c) mod (2 * total_n) \<noteq> total_n \<longrightarrow>
                     p = Math_round (of_nat c / of_nat total_n * 100)) \<and>
                  (p = Math_round (of_nat c / of_nat total_n * 100) \<or>
                   p = Math_round (of_nat c / of_nat total_n * 100) - 1))) \<and>
         (completed st = None \<longrightarrow>
            monitorBatchProgress b total_n [Replied st] s =
              ([Fetch (Download_status b), Status_received st, Set_timeout Check_progress 2000,
                Fetch (Download_status b)],
               s\<lparr>batchProgress_content := Batch_bar 0 total_n (Percent 0)\<rparr>,
               In_flight)) \<and>
         progress_percent 3 7 = Percent 43"
proof -
  let ?d = "\<lambda>c. Math_round (binary64 (binary64 (of_nat c / of_nat total_n) * 100))"
  let ?x = "\<lambda>c. Math_round (of_nat c / of_nat total_n * 100)"
  let ?evs = "[Fetch (Download_status b), Status_received st, Set_timeout Check_progress 2000,
                Fetch (Download_status b)]"
  have "\<lfloor>(1 :: rat) / 2\<rfloor> = 0" by (rule floor_unique) simp_all
  then have z: "Math_round (binary64 (binary64 0 * 100)) = 0"
    by (simp add: binary64_def Math_round_def)
  have z': "progress_percent 0 total_n = Percent 0"
    using assms(2,3) z by (simp add: progress_percent_def)
  have pp: "progress_percent c total_n = Percent (?d c)" if "c < 2 ^ 44"
  proof -
    have "(2 :: nat) ^ 44 \<le> 2 ^ 53" by simp
    with that have "c < 2 ^ 53" by linarith
    with assms(2,3) show ?thesis by (simp add: progress_percent_def)
  qed
  have once: "batch_check_once b total_n (Replied st) s =
      ([Fetch (Download_status b), Status_received st, Set_timeout Check_progress 2000],
       s\<lparr>batchProgress_content :=
            Batch_bar (case completed st of None \<Rightarrow> 0 | Some n \<Rightarrow> n) total_n
              (progress_percent (case completed st of None \<Rightarrow> 0 | Some n \<Rightarrow> n) total_n)\<rparr>,
       Rescheduled)"
    using assms(1) by (simp add: batch_check_once_def Let_def)
  have run: "monitorBatchProgress b total_n [Replied st] s =
      (?evs,
       s\<lparr>batchProgress_content :=
            Batch_bar (case completed st of None \<Rightarrow> 0 | Some n \<Rightarrow> n) total_n
              (progress_percent (case completed st of None \<Rightarrow> 0 | Some n \<Rightarrow> n) total_n)\<rparr>,
       In_flight)"
    unfolding monitorBatchProgress_def batch_checkProgress.simps once by simp
  have seven: "progress_percent 3 7 = Percent 43"
    using Math_round_three_sevenths by (simp add: progress_percent_def)
  have off: "?d c = ?x c" if "c < 2 ^ 44" "(200 * c) mod (2 * total_n) \<noteq> total_n"
    using percent_exact_off_ties[OF assms(2) that] percent_exact_value[OF assms(2), of c]
    by simp
  have near: "?d c = ?x c \<or> ?d c = ?x c - 1" if c: "c < 2 ^ 44"
  proof (cases "(200 * c) mod (2 * total_n) = total_n")
    case True
    from percent_at_tie[OF assms(2) c True] show ?thesis .
  next
    case False
    with off[OF c] show ?thesis by simp
  qed
  have first: "\<exists>p. monitorBatchProgress b total_n [Replied st] s =
                    (?evs, s\<lparr>batchProgress_content := Batch_bar c total_n (Percent p)\<rparr>,
                     In_flight) \<and>
                  ((200 * c) mod (2 * total_n) \<noteq> total_n \<longrightarrow> p = ?x c) \<and>
                  (p = ?x c \<or> p = ?x c - 1)"
    if h: "completed st = Some c \<and> c < 2 ^ 44"
  proof -
    from h have c: "c < 2 ^ 44" and f: "completed st = Some c" by simp_all
    have "monitorBatchProgress b total_n [Replied st] s =
            (?evs, s\<lparr>batchProgress_content := Batch_bar c total_n (Percent (?d c))\<rparr>, In_flight)"
      using run f pp[OF c] by simp
    moreover have "(200 * c) mod (2 * total_n) \<noteq> total_n \<longrightarrow> ?d c = ?x c"
      using off[OF c] by blast
    ultimately show ?thesis using near[OF c] by blast
  qed
  have second: "monitorBatchProgress b total_n [Replied st] s =
              (?evs, s\<lparr>batchProgress_content := Batch_bar 0 total_n (Percent 0)\<rparr>, In_flight)"
    if "completed st = None"
    using run z' that by simp
  from first second seven show ?thesis by blast
qed

theorem batch_processing_percentage_witness:
  "status sample_processing = ascii ''processing'' \<and> (0::nat) < 7 \<and> (7::nat) < 2 ^ 53 \<and>
   completed sample_processing = Some 3 \<and> (3::nat) < 2 ^ 44 \<and>
   (200 * 3) mod (2 * 7) \<noteq> (7::nat) \<and>
   monitorBatchProgress (Some (ascii ''b1'')) 7 [Replied sample_processing] blank_page =
     ([Fetch (Download_status (Some (ascii ''b1''))), Status_received sample_processing,
       Set_timeout Check_progress 2000, Fetch (Download_status (Some (ascii ''b1'')))],
      blank_page\<lparr>batchProgress_content :=
        Batch_bar 3 7 (Percent (Math_round (of_nat 3 / of_nat 7 * 100)))\<rparr>, In_flight) \<and>
   Math_round (of_nat 3 / of_nat 7 * 100) = 43 \<and>
   completed (status_only (ascii ''processing'')) = None \<and>
   monitorBatchProgress (Some (ascii ''b1'')) 7 [Replied (status_only (ascii ''processing''))] blank_page =
     ([Fetch (Download_status (Some (ascii ''b1''))), Status_received (status_only (ascii ''processing'')),
       Set_timeout Check_progress 2000, Fetch (Download_status (Some (ascii ''b1'')))],
      blank_page\<lparr>batchProgress_content := Batch_bar 0 7 (Percent 0)\<rparr>, In_flight)"
proof -
  have h1: "status sample_processing = ascii ''processing''"
    by (simp add: sample_processing_def status_only_def)
  have h1': "status (status_only (ascii ''processing'')) = ascii ''processing''"
    by (simp add: status_only_def)
  have h2: "(0::nat) < 7" by simp
  have h3: "(7::nat) < 2 ^ 53" by simp
  have h4: "completed sample_processing = Some 3 \<and> (3::nat) < 2 ^ 44"
    by (simp add: sample_processing_def status_only_def)
  have h5: "completed (status_only (ascii ''processing'')) = None"
    by (simp add: status_only_def)
  have h6: "(200 * 3) mod (2 * 7) \<noteq> (7::nat)" by simp
  have "\<lfloor>(607 :: rat) / 14\<rfloor> = 43" by (rule floor_unique) simp_all
  then have v: "Math_round (of_nat 3 / of_nat 7 * 100) = 43" by (simp add: Math_round_def)
  note a = batch_processing_percentage [OF h1 h2 h3, of 3 "Some (ascii ''b1'')" blank_page]
  note b = batch_processing_percentage [OF h1' h2 h3, of 0 "Some (ascii ''b1'')" blank_page]
  from a h4 h6 obtain p where
    "monitorBatchProgress (Some (ascii ''b1'')) 7 [Replied sample_processing] blank_page =
       ([Fetch (Download_status (Some (ascii ''b1''))), Status_received sample_processing,
         Set_timeout Check_progress 2000, Fetch (Download_status (Some (ascii ''b1'')))],
        blank_page\<lparr>batchProgress_content := Batch_bar 3 7 (Percent p)\<rparr>, In_flight)"
    "p = Math_round (of_nat 3 / of_nat 7 * 100)"
    by blast
  then have a': "monitorBatchProgress (Some (ascii ''b1'')) 7 [Replied sample_processing] blank_page =
     ([Fetch (Download_status (Some (ascii ''b1''))), Status_received sample_processing,
       Set_timeout Check_progress 2000, Fetch (Download_status (Some (ascii ''b1'')))],
      blank_page\<lparr>batchProgress_content :=
        Batch_bar 3 7 (Percent (Math_round (of_nat 3 / of_nat 7 * 100)))\<rparr>, In_flight)"
    by simp
  from b h5 have b': "monitorBatchProgress (Some (ascii ''b1'')) 7 [Replied (status_only (ascii ''processing''))] blank_page =
     ([Fetch (Download_status (Some (ascii ''b1''))), Status_received (status_only (ascii ''processing'')),
       Set_timeout Check_progress 2000, Fetch (Download_status (Some (ascii ''b1'')))],
      blank_page\<lparr>batchProgress_content := Batch_bar 0 7 (Percent 0)\<rparr>, In_flight)"
    by blast
  from h1 h2 h3 h4 h5 h6 a' v b' show ?thesis by blast
qed

text \<open>
  C10. In the batch poll loop, a fetched status whose tag is neither \<open>processing\<close> nor
  \<open>finished\<close> (\<open>error\<close>, for one) changes nothing on the page, sets no timer and shows
  no error; the loop ends there, whatever the backend would have answered next.
\<close>

theorem batch_unhandled_status_halts:
  assumes "status st \<noteq> ascii ''processing''" and "status st \<noteq> ascii ''finished''"
  shows "monitorBatchProgress batchId total_n (Replied st # rest) s =
           ([Fetch (Download_status batchId), Status_received st], s, Halted)"
  using assms by (simp add: monitorBatchProgress_def batch_check_once_def)

theorem batch_unhandled_status_halts_witness:
  "status sample_error \<noteq> ascii ''processing'' \<and>
   status sample_error \<noteq> ascii ''finished'' \<and>
   monitorBatchProgress (Some (ascii ''b1'')) 3
     [Replied sample_error, Replied (status_only (ascii ''finished''))] blank_page =
     ([Fetch (Download_status (Some (ascii ''b1''))), Status_received sample_error],
      blank_page, Halted)"
proof -
  have a: "status sample_error \<noteq> ascii ''processing''"
    by (simp add: sample_error_def status_only_def)
  have b: "status sample_error \<noteq> ascii ''finished''"
    by (simp add: sample_error_def status_only_def)
  show ?thesis
    using a b batch_unhandled_status_halts [OF a b, of "Some (ascii ''b1'')" 3
        "[Replied (status_only (ascii ''finished''))]" blank_page]
    by blast
qed

end
